theory Spec2Isabelle
  imports Main "HOL-Library.Word" "HOL-Library.AList"
begin

section \<open>JavaScript values\<close>

text \<open>
  A JavaScript string is a sequence of UTF-16 code units. Room ids, socket ids and message
  bodies are all such strings. \<open>str\<close> writes an ASCII literal as code units.
\<close>

type_synonym jstring = "16 word list"

definition str :: "string \<Rightarrow> jstring" where
  "str s = map (\<lambda>c. of_nat (of_char c)) s"

text \<open>
  The payload a client sends with an event is any JSON value. \<open>JObj\<close> holds the own
  properties of an object.
\<close>

datatype jsval =
    JUndefined
  | JNull
  | JBool bool
  | JNum int
  | JStr jstring
  | JArr "jsval list"
  | JObj "(jstring \<times> jsval) list"

datatype js_error = TypeError

text \<open>
  Reading a property \<open>data.k\<close>, also by destructuring \<open>const { k } = data\<close>: on
  \<open>undefined\<close> and \<open>null\<close> it throws a TypeError. The handlers read the properties
  \<open>roomId\<close>, \<open>message\<close> and \<open>isTyping\<close> only; none of them is a property of a
  boolean, a number, a string or an array, where the read gives \<open>undefined\<close>.
\<close>

fun js_get :: "jsval \<Rightarrow> jstring \<Rightarrow> js_error + jsval" where
  "js_get JUndefined k = Inl TypeError"
| "js_get JNull k = Inl TypeError"
| "js_get (JObj ps) k = Inr (case map_of ps k of None \<Rightarrow> JUndefined | Some v \<Rightarrow> v)"
| "js_get v k = Inr JUndefined"

text \<open>
  \<open>String.prototype.trim\<close> removes the code units of WhiteSpace and LineTerminator from
  both ends of the string.
\<close>

definition is_ws :: "16 word \<Rightarrow> bool" where
  "is_ws c \<longleftrightarrow> c \<in> set [0x0009, 0x000A, 0x000B, 0x000C, 0x000D, 0x0020, 0x00A0, 0x1680,
     0x2000, 0x2001, 0x2002, 0x2003, 0x2004, 0x2005, 0x2006, 0x2007, 0x2008, 0x2009, 0x200A,
     0x2028, 0x2029, 0x202F, 0x205F, 0x3000, 0xFEFF]"

definition trim :: "jstring \<Rightarrow> jstring" where
  "trim s = rev (dropWhile is_ws (rev (dropWhile is_ws s)))"

text \<open>
  \<open>message.trim()\<close> on a value that is not a string: \<open>undefined\<close> and \<open>null\<close> have no
  properties, and no other JSON value has a method \<open>trim\<close>; the call throws a TypeError.
\<close>

fun js_trim :: "jsval \<Rightarrow> js_error + jstring" where
  "js_trim (JStr s) = Inr (trim s)"
| "js_trim v = Inl TypeError"

text \<open>
  A \<open>Set\<close> keeps its elements in insertion order; \<open>Array.from\<close> of it is the list
  itself.
\<close>

definition set_add :: "'a \<Rightarrow> 'a list \<Rightarrow> 'a list" where
  "set_add x xs = (if x \<in> set xs then xs else xs @ [x])"

definition set_delete :: "'a \<Rightarrow> 'a list \<Rightarrow> 'a list" where
  "set_delete x xs = filter (\<lambda>y. y \<noteq> x) xs"

text \<open>\<open>xs.slice(-n)\<close>: the last \<open>n\<close> elements, all of them when there are fewer.\<close>

definition slice_last :: "nat \<Rightarrow> 'a list \<Rightarrow> 'a list" where
  "slice_last n xs = drop (length xs - n) xs"

section \<open>The server's data\<close>

text \<open>
  \<open>socket.user\<close> is the object decoded from the token at the handshake, a fresh object
  for every connection. \<open>room.users\<close> is a \<open>Set\<close> of these objects, which compares
  them by reference: the field \<open>ref\<close> stands for the reference, and is the id of the
  socket the object was made for.
\<close>

record user =
  ref :: jstring
  user_id :: jstring
  user_name :: jstring
  email :: jstring
  picture :: jstring

record message_obj =
  msg_id :: jstring
  msg_user :: user
  message :: jstring
  timestamp :: jstring

record room =
  name :: jstring
  messages :: "message_obj list"
  users :: "user list"

text \<open>
  A socket of the transport library: its \<open>user\<close>, the set \<open>socket.rooms\<close> of the
  library's rooms it is in (its own id first), and whether it is connected.
\<close>

record socket =
  user :: user
  srooms :: "jstring list"
  connected :: bool

text \<open>The events the server sends to a client.\<close>

datatype out_event =
    Error_ev string
  | UserLeft user "user list"
  | UserJoined user "user list"
  | RoomUsers jstring "user list"
  | MessageHistory jstring "message_obj list"
  | Message_ev message_obj
  | UserTyping user jsval

text \<open>
  The three \<open>Map\<close>s of the server (\<open>rooms\<close>, \<open>userSockets\<close>, \<open>socketUsers\<close>), the
  sockets of the transport library in the order they connected, and the events delivered
  so far, each with the id of the socket that receives it.
\<close>

record state =
  rooms :: "(jstring \<times> room) list"
  userSockets :: "(jstring \<times> jstring) list"
  socketUsers :: "(jstring \<times> user) list"
  sockets :: "(jstring \<times> socket) list"
  outbox :: "(jstring \<times> out_event) list"

definition init :: state where
  "init = \<lparr>rooms = [], userSockets = [], socketUsers = [], sockets = [], outbox = []\<rparr>"

section \<open>The transport library\<close>

definition socket_rooms :: "state \<Rightarrow> jstring \<Rightarrow> jstring list" where
  "socket_rooms st sid = (case map_of (sockets st) sid of None \<Rightarrow> [] | Some s \<Rightarrow> srooms s)"

text \<open>
  The sockets in a room of the library, listed here in the order they connected. (The
  library keeps them in the order they joined the room; which sockets they are does not
  depend on it.)
\<close>

definition room_sockets :: "state \<Rightarrow> jstring \<Rightarrow> jstring list" where
  "room_sockets st r = filter (\<lambda>s. r \<in> set (socket_rooms st s)) (map fst (sockets st))"

text \<open>\<open>socket.emit(e)\<close>: to this socket.\<close>

definition socket_emit :: "state \<Rightarrow> jstring \<Rightarrow> out_event \<Rightarrow> state" where
  "socket_emit st sid e = st\<lparr>outbox := outbox st @ [(sid, e)]\<rparr>"

text \<open>\<open>socket.to(r).emit(e)\<close>: to every socket in room \<open>r\<close> but this one.\<close>

definition socket_to_emit :: "state \<Rightarrow> jstring \<Rightarrow> jstring \<Rightarrow> out_event \<Rightarrow> state" where
  "socket_to_emit st sid r e =
     st\<lparr>outbox := outbox st @ map (\<lambda>s. (s, e)) (filter (\<lambda>s. s \<noteq> sid) (room_sockets st r))\<rparr>"

text \<open>\<open>io.to(r).emit(e)\<close>: to every socket in room \<open>r\<close>.\<close>

definition io_to_emit :: "state \<Rightarrow> jstring \<Rightarrow> out_event \<Rightarrow> state" where
  "io_to_emit st r e = st\<lparr>outbox := outbox st @ map (\<lambda>s. (s, e)) (room_sockets st r)\<rparr>"

definition map_socket :: "(socket \<Rightarrow> socket) \<Rightarrow> jstring \<Rightarrow> state \<Rightarrow> state" where
  "map_socket f sid st =
     (case map_of (sockets st) sid of
        None \<Rightarrow> st
      | Some s \<Rightarrow> st\<lparr>sockets := AList.update sid (f s) (sockets st)\<rparr>)"

definition socket_join :: "state \<Rightarrow> jstring \<Rightarrow> jstring \<Rightarrow> state" where
  "socket_join st sid r = map_socket (\<lambda>s. s\<lparr>srooms := set_add r (srooms s)\<rparr>) sid st"

definition socket_leave :: "state \<Rightarrow> jstring \<Rightarrow> jstring \<Rightarrow> state" where
  "socket_leave st sid r = map_socket (\<lambda>s. s\<lparr>srooms := set_delete r (srooms s)\<rparr>) sid st"

text \<open>
  When a connection closes, the library first takes the socket out of all its rooms and
  marks it disconnected, and only then fires the \<open>disconnect\<close> event: in a handler of
  that event \<open>socket.rooms\<close> is the empty set. (The rooms are still there in the earlier
  \<open>disconnecting\<close> event, for which the server registers no handler.)
\<close>

definition transport_close :: "state \<Rightarrow> jstring \<Rightarrow> state" where
  "transport_close st sid = map_socket (\<lambda>s. s\<lparr>srooms := [], connected := False\<rparr>) sid st"

section \<open>The server\<close>

text \<open>
  \<open>rooms.get(k)\<close> for a value \<open>k\<close> a client sent: the keys of the map are strings, so
  only a string finds a room. The result carries the key with the room.
\<close>

definition rooms_get :: "state \<Rightarrow> jsval \<Rightarrow> (jstring \<times> room) option" where
  "rooms_get st k =
     (case k of JStr r \<Rightarrow> map_option (Pair r) (map_of (rooms st) r) | _ \<Rightarrow> None)"

definition map_room :: "(room \<Rightarrow> room) \<Rightarrow> jstring \<Rightarrow> state \<Rightarrow> state" where
  "map_room f r st =
     (case map_of (rooms st) r of
        None \<Rightarrow> st
      | Some rm \<Rightarrow> st\<lparr>rooms := AList.update r (f rm) (rooms st)\<rparr>)"

definition room_users :: "state \<Rightarrow> jstring \<Rightarrow> user list" where
  "room_users st r = (case map_of (rooms st) r of None \<Rightarrow> [] | Some rm \<Rightarrow> users rm)"

definition room_messages :: "state \<Rightarrow> jstring \<Rightarrow> message_obj list" where
  "room_messages st r = (case map_of (rooms st) r of None \<Rightarrow> [] | Some rm \<Rightarrow> messages rm)"

text \<open>
  \<open>POST /api/rooms\<close>, with the name of the request a string and \<open>rid\<close> the id that
  \<open>Date.now()\<close> and \<open>Math.random()\<close> give. \<open>rooms.set\<close> replaces the room of a key that
  is already there.
\<close>

definition create_room :: "state \<Rightarrow> jstring \<Rightarrow> jstring \<Rightarrow> state" where
  "create_room st rid nm =
     (if nm = [] \<or> length (trim nm) = 0 then st
      else st\<lparr>rooms := AList.update rid \<lparr>name = trim nm, messages = [], users = []\<rparr> (rooms st)\<rparr>)"

text \<open>
  \<open>io.on('connection')\<close>: the library has put the new socket into the room of its own
  id; the server records it in its two maps.
\<close>

definition connection :: "state \<Rightarrow> jstring \<Rightarrow> user \<Rightarrow> state" where
  "connection st sid u0 =
     (let u = u0\<lparr>ref := sid\<rparr> in
      st\<lparr>sockets := AList.update sid \<lparr>user = u, srooms = [sid], connected = True\<rparr> (sockets st),
         userSockets := AList.update (user_id u) sid (userSockets st),
         socketUsers := AList.update sid u (socketUsers st)\<rparr>)"

text \<open>The body of the loop "Leave previous rooms" of \<open>join_room\<close>, for one room.\<close>

definition leave_previous :: "jstring \<Rightarrow> user \<Rightarrow> state \<Rightarrow> jstring \<Rightarrow> state" where
  "leave_previous sid u st r =
     (if r \<noteq> sid then
        (let st1 = socket_leave st sid r in
         case map_of (rooms st1) r of
           None \<Rightarrow> st1
         | Some prevRoom \<Rightarrow>
             (let st2 = map_room (\<lambda>rm. rm\<lparr>users := set_delete u (users rm)\<rparr>) r st1
              in socket_to_emit st2 sid r (UserLeft u (room_users st2 r))))
      else st)"

text \<open>
  The handler of \<open>join_room\<close>. The loop runs over \<open>Array.from(socket.rooms)\<close>, a copy
  taken before the first room is left. The room object found at the start is the one the
  map still holds after the loop, with what the loop did to it.
\<close>

definition join_room :: "state \<Rightarrow> jstring \<Rightarrow> user \<Rightarrow> jsval \<Rightarrow> state" where
  "join_room st sid u roomId =
     (case rooms_get st roomId of
        None \<Rightarrow> socket_emit st sid (Error_ev ''Room not found'')
      | Some (r, _) \<Rightarrow>
          (let st1 = foldl (leave_previous sid u) st (socket_rooms st sid);
               st2 = socket_join st1 sid r;
               st3 = map_room (\<lambda>rm. rm\<lparr>users := set_add u (users rm)\<rparr>) r st2;
               st4 = socket_to_emit st3 sid r (UserJoined u (room_users st3 r));
               st5 = socket_emit st4 sid (RoomUsers r (room_users st4 r))
           in socket_emit st5 sid (MessageHistory r (room_messages st5 r))))"

text \<open>
  The handler of \<open>send_message\<close>; \<open>mid\<close> and \<open>ts\<close> are the message id and the timestamp
  that the clock and the random generator give.
\<close>

definition send_message :: "state \<Rightarrow> jstring \<Rightarrow> user \<Rightarrow> jsval \<Rightarrow> jstring \<Rightarrow> jstring \<Rightarrow> js_error + state" where
  "send_message st sid u data mid ts =
     (case js_get data (str ''roomId'') of
        Inl e \<Rightarrow> Inl e
      | Inr roomId \<Rightarrow>
     (case js_get data (str ''message'') of
        Inl e \<Rightarrow> Inl e
      | Inr msg \<Rightarrow>
     (case rooms_get st roomId of
        None \<Rightarrow> Inr (socket_emit st sid (Error_ev ''Room not found''))
      | Some (r, rm) \<Rightarrow>
          if u \<notin> set (users rm) then Inr (socket_emit st sid (Error_ev ''You are not in this room''))
          else
            (case js_trim msg of
               Inl e \<Rightarrow> Inl e
             | Inr body \<Rightarrow>
                 (let messageObj = \<lparr>msg_id = mid, msg_user = u, message = body, timestamp = ts\<rparr>;
                      st1 = map_room (\<lambda>rm. rm\<lparr>messages := messages rm @ [messageObj]\<rparr>) r st;
                      st2 = (if length (room_messages st1 r) > 100
                             then map_room (\<lambda>rm. rm\<lparr>messages := slice_last 100 (messages rm)\<rparr>) r st1
                             else st1)
                  in Inr (io_to_emit st2 r (Message_ev messageObj)))))))"

text \<open>
  The handler of \<open>typing\<close>. Its room comes from the client unchecked, and
  \<open>socket.to\<close> takes one room or an array of rooms: the event goes to the sockets that
  are in one of them, and to all connected sockets when the array is empty, never to the
  sender. Only a string names a room that has sockets.
\<close>

definition to_rooms :: "jsval \<Rightarrow> jsval list" where
  "to_rooms v = (case v of JArr vs \<Rightarrow> vs | _ \<Rightarrow> [v])"

definition in_some_room :: "state \<Rightarrow> jsval list \<Rightarrow> jstring \<Rightarrow> bool" where
  "in_some_room st vs s \<longleftrightarrow> vs = [] \<and> socket_rooms st s \<noteq> [] \<or> (\<exists>r \<in> set (socket_rooms st s). JStr r \<in> set vs)"

definition typing :: "state \<Rightarrow> jstring \<Rightarrow> user \<Rightarrow> jsval \<Rightarrow> js_error + state" where
  "typing st sid u data =
     (case js_get data (str ''roomId'') of
        Inl e \<Rightarrow> Inl e
      | Inr roomId \<Rightarrow>
     (case js_get data (str ''isTyping'') of
        Inl e \<Rightarrow> Inl e
      | Inr isTyping \<Rightarrow>
          Inr (st\<lparr>outbox := outbox st @
                 map (\<lambda>s. (s, UserTyping u isTyping))
                   (filter (\<lambda>s. s \<noteq> sid \<and> in_some_room st (to_rooms roomId) s)
                      (map fst (sockets st)))\<rparr>)))"

text \<open>The body of the loop "Remove from all rooms" of the disconnect handler, for one room.\<close>

definition remove_from_room :: "jstring \<Rightarrow> user \<Rightarrow> state \<Rightarrow> jstring \<Rightarrow> state" where
  "remove_from_room sid u st roomId =
     (if roomId \<noteq> sid then
        (case map_of (rooms st) roomId of
           None \<Rightarrow> st
         | Some _ \<Rightarrow>
             (let st1 = map_room (\<lambda>rm. rm\<lparr>users := set_delete u (users rm)\<rparr>) roomId st
              in socket_to_emit st1 sid roomId (UserLeft u (room_users st1 roomId))))
      else st)"

text \<open>The handler of \<open>disconnect\<close>, as it is written.\<close>

definition on_disconnect :: "state \<Rightarrow> jstring \<Rightarrow> user \<Rightarrow> state" where
  "on_disconnect st sid u =
     (let st1 = foldl (remove_from_room sid u) st (socket_rooms st sid)
      in st1\<lparr>userSockets := AList.delete (user_id u) (userSockets st1),
             socketUsers := AList.delete sid (socketUsers st1)\<rparr>)"

text \<open>A connection closes: the library's part, then the handler.\<close>

definition disconnect :: "state \<Rightarrow> jstring \<Rightarrow> user \<Rightarrow> state" where
  "disconnect st sid u = on_disconnect (transport_close st sid) sid u"

section \<open>Runs of the server\<close>

text \<open>
  What happens to the server, one event at a time (the handlers run to completion, one
  after the other, on the single thread of the runtime).
\<close>

datatype event =
    CreateRoom jstring jstring
  | Connect jstring user
  | JoinRoom jstring jsval
  | SendMessage jstring jsval jstring jstring
  | Typing jstring jsval
  | Disconnect jstring

text \<open>
  A socket has handlers from its connection to its disconnection; an event that names
  no connected socket reaches no handler.
\<close>

definition with_socket :: "state \<Rightarrow> jstring \<Rightarrow> (user \<Rightarrow> js_error + state) \<Rightarrow> js_error + state" where
  "with_socket st sid h =
     (case map_of (sockets st) sid of
        None \<Rightarrow> Inr st
      | Some s \<Rightarrow> if connected s then h (user s) else Inr st)"

fun step :: "state \<Rightarrow> event \<Rightarrow> js_error + state" where
  "step st (CreateRoom rid nm) = Inr (create_room st rid nm)"
| "step st (Connect sid u) = Inr (connection st sid u)"
| "step st (JoinRoom sid roomId) = with_socket st sid (\<lambda>u. Inr (join_room st sid u roomId))"
| "step st (SendMessage sid data mid ts) = with_socket st sid (\<lambda>u. send_message st sid u data mid ts)"
| "step st (Typing sid data) = with_socket st sid (\<lambda>u. typing st sid u data)"
| "step st (Disconnect sid) = with_socket st sid (\<lambda>u. Inr (disconnect st sid u))"

text \<open>A run stops at the first handler that throws.\<close>

fun run :: "state \<Rightarrow> event list \<Rightarrow> js_error + state" where
  "run st [] = Inr st"
| "run st (e # es) = (case step st e of Inl x \<Rightarrow> Inl x | Inr st' \<Rightarrow> run st' es)"

text \<open>
  The ids that the environment generates along a run: the socket ids of the library and
  the room ids of \<open>POST /api/rooms\<close>. They are taken to be pairwise distinct.
\<close>

fun new_id :: "event \<Rightarrow> jstring list" where
  "new_id (CreateRoom rid nm) = [rid]"
| "new_id (Connect sid u) = [sid]"
| "new_id _ = []"

definition fresh_ids :: "event list \<Rightarrow> bool" where
  "fresh_ids evs = distinct (concat (map new_id evs))"

text \<open>The rooms a user object is a member of.\<close>

definition member_rooms :: "state \<Rightarrow> user \<Rightarrow> jstring list" where
  "member_rooms st u = filter (\<lambda>r. u \<in> set (room_users st r)) (map fst (rooms st))"

section \<open>What holds of every state the server reaches\<close>

text \<open>
  A socket's user object carries the socket's id, which is no key of \<open>rooms\<close>; a
  connected socket is in the room of its own id and in at most one other room, the room
  that has its user object as a member; a disconnected socket is in no room of the
  library.
\<close>

definition socket_ok :: "state \<Rightarrow> jstring \<Rightarrow> socket \<Rightarrow> bool" where
  "socket_ok st sid s \<longleftrightarrow>
     ref (user s) = sid \<and> sid \<notin> set (map fst (rooms st)) \<and>
     (connected s \<longrightarrow>
        (\<exists>rs. srooms s = sid # rs \<and> length rs \<le> 1 \<and>
           (\<forall>r. r \<in> set rs \<longleftrightarrow> user s \<in> set (room_users st r)))) \<and>
     (\<not> connected s \<longrightarrow> srooms s = [])"

text \<open>
  A room holds at most 100 messages, and its members are user objects of sockets that
  connected at some time.
\<close>

definition room_ok :: "state \<Rightarrow> jstring \<Rightarrow> bool" where
  "room_ok st r \<longleftrightarrow>
     length (room_messages st r) \<le> 100 \<and> distinct (room_users st r) \<and>
     (\<forall>u \<in> set (room_users st r). \<exists>s. map_of (sockets st) (ref u) = Some s \<and> user s = u)"

definition consistent :: "state \<Rightarrow> bool" where
  "consistent st \<longleftrightarrow>
     distinct (map fst (rooms st)) \<and>
     (\<forall>sid s. map_of (sockets st) sid = Some s \<longrightarrow> socket_ok st sid s) \<and>
     (\<forall>r. room_ok st r) \<and>
     (\<forall>u r1 r2. u \<in> set (room_users st r1) \<longrightarrow> u \<in> set (room_users st r2) \<longrightarrow> r1 = r2)"


section \<open>Notions the properties are stated with\<close>

text \<open>An event that connects socket \<open>sid\<close>, or is its join or its disconnection.\<close>

fun moves :: "jstring \<Rightarrow> event \<Rightarrow> bool" where
  "moves sid (Connect s u) = (s = sid)"
| "moves sid (JoinRoom s roomId) = (s = sid)"
| "moves sid (Disconnect s) = (s = sid)"
| "moves sid _ = False"

text \<open>
  The post that an event makes in a state, with its room: the event is a \<open>send_message\<close>
  of a connected socket whose user object is a member of the room it names, and its body is
  a string. The message is stamped with the id and the time of the event, and carries the
  trimmed body.
\<close>

fun accepted_post :: "state \<Rightarrow> event \<Rightarrow> (jstring \<times> message_obj) option" where
  "accepted_post st (SendMessage sid data mid ts) =
     (case map_of (sockets st) sid of
        None \<Rightarrow> None
      | Some s \<Rightarrow>
          (case (js_get data (str ''roomId''), js_get data (str ''message'')) of
             (Inr (JStr r), Inr (JStr b)) \<Rightarrow>
               if connected s \<and> user s \<in> set (room_users st r)
               then Some (r, \<lparr>msg_id = mid, msg_user = user s, message = trim b, timestamp = ts\<rparr>)
               else None
           | _ \<Rightarrow> None))"
| "accepted_post st _ = None"

definition post_to :: "jstring \<Rightarrow> state \<Rightarrow> event \<Rightarrow> message_obj list" where
  "post_to r st e = (case accepted_post st e of None \<Rightarrow> [] | Some (r', m) \<Rightarrow> if r' = r then [m] else [])"

text \<open>The posts accepted for room \<open>r\<close> along a run, in the order they were accepted.\<close>

fun posts :: "jstring \<Rightarrow> state \<Rightarrow> event list \<Rightarrow> message_obj list" where
  "posts r st [] = []"
| "posts r st (e # es) =
     post_to r st e @ (case step st e of Inl _ \<Rightarrow> [] | Inr st' \<Rightarrow> posts r st' es)"

text \<open>The events a step or a run adds to the outbox.\<close>

definition sent :: "state \<Rightarrow> state \<Rightarrow> (jstring \<times> out_event) list" where
  "sent st st' = drop (length (outbox st)) (outbox st')"

section \<open>Example runs\<close>

definition ann :: user where
  "ann = \<lparr>ref = [], user_id = str ''1'', user_name = str ''Ann'', email = [], picture = []\<rparr>"

definition bob :: user where
  "bob = \<lparr>ref = [], user_id = str ''2'', user_name = str ''Bob'', email = [], picture = []\<rparr>"

text \<open>Two rooms, and two sockets \<open>A\<close> and \<open>B\<close> connected.\<close>

definition ex_setup :: "event list" where
  "ex_setup = [CreateRoom (str ''r1'') (str ''general''), CreateRoom (str ''r2'') (str ''random''),
     Connect (str ''A'') ann, Connect (str ''B'') bob]"

text \<open>Both sockets have joined room \<open>r1\<close>.\<close>

definition ex_both :: "event list" where
  "ex_both = ex_setup @ [JoinRoom (str ''A'') (JStr (str ''r1'')), JoinRoom (str ''B'') (JStr (str ''r1''))]"

definition ex_data :: "jsval \<Rightarrow> jsval \<Rightarrow> jsval" where
  "ex_data roomId msg = JObj [(str ''roomId'', roomId), (str ''message'', msg)]"

definition ex_send :: "jstring \<Rightarrow> jsval \<Rightarrow> jsval \<Rightarrow> event" where
  "ex_send sid roomId msg =
     SendMessage sid (ex_data roomId msg) (str ''m'') (str ''t'')"

text \<open>The state after both have joined, and the user objects of the two sockets.\<close>

definition st_both :: state where
  "st_both = projr (run init ex_both)"

definition ann_A :: user where
  "ann_A = ann\<lparr>ref := str ''A''\<rparr>"

definition bob_B :: user where
  "bob_B = bob\<lparr>ref := str ''B''\<rparr>"

text \<open>Socket \<open>A\<close> alone has joined room \<open>r1\<close>.\<close>

definition ex_one :: "event list" where
  "ex_one = ex_setup @ [JoinRoom (str ''A'') (JStr (str ''r1''))]"

definition st_one :: state where
  "st_one = projr (run init ex_one)"

text \<open>Then \<open>A\<close> moves to room \<open>r2\<close>, and \<open>B\<close> joins \<open>r1\<close> and posts there.\<close>

definition ex_move :: "event list" where
  "ex_move = [JoinRoom (str ''A'') (JStr (str ''r2'')), JoinRoom (str ''B'') (JStr (str ''r1'')),
     ex_send (str ''B'') (JStr (str ''r1'')) (JStr (str ''hi''))]"

text \<open>After both have joined \<open>r1\<close>, socket \<open>A\<close> posts 101 messages, numbered from 0.\<close>

definition ex_post :: "nat \<Rightarrow> event" where
  "ex_post n = SendMessage (str ''A'') (ex_data (JStr (str ''r1'')) (JStr (str ''hi''))) [of_nat n] (str ''t'')"

definition ex_many :: "event list" where
  "ex_many = ex_both @ map ex_post [0..<101]"

section \<open>Effects of the operations\<close>


named_theorems fx

lemma map_room_fields [fx]:
  "sockets (map_room f r st) = sockets st"
  "outbox (map_room f r st) = outbox st"
  "userSockets (map_room f r st) = userSockets st"
  "socketUsers (map_room f r st) = socketUsers st"
  by (simp_all add: map_room_def split: option.split)

lemma map_room_keys [fx]: "map fst (rooms (map_room f r st)) = map fst (rooms st)"
proof (cases "map_of (rooms st) r")
  case None
  then show ?thesis by (simp add: map_room_def)
next
  case (Some rm)
  then have "r \<in> fst ` set (rooms st)"
    by (metis map_of_eq_None_iff option.distinct(1))
  with Some show ?thesis by (simp add: map_room_def update_keys)
qed

lemma map_room_lookup [fx]:
  "map_of (rooms (map_room f r st)) r' =
     (if r' = r then map_option f (map_of (rooms st) r) else map_of (rooms st) r')"
  by (simp add: map_room_def update_conv' split: option.split)

lemma map_socket_fields [fx]:
  "rooms (map_socket f sid st) = rooms st"
  "outbox (map_socket f sid st) = outbox st"
  "userSockets (map_socket f sid st) = userSockets st"
  "socketUsers (map_socket f sid st) = socketUsers st"
  by (simp_all add: map_socket_def split: option.split)

lemma map_socket_keys [fx]: "map fst (sockets (map_socket f sid st)) = map fst (sockets st)"
proof (cases "map_of (sockets st) sid")
  case None
  then show ?thesis by (simp add: map_socket_def)
next
  case (Some s)
  then have "sid \<in> fst ` set (sockets st)"
    by (metis map_of_eq_None_iff option.distinct(1))
  with Some show ?thesis by (simp add: map_socket_def update_keys)
qed

lemma map_socket_lookup [fx]:
  "map_of (sockets (map_socket f sid st)) sid' =
     (if sid' = sid then map_option f (map_of (sockets st) sid) else map_of (sockets st) sid')"
  by (simp add: map_socket_def update_conv' split: option.split)

lemma emit_fields [fx]:
  "rooms (socket_emit st sid e) = rooms st"
  "sockets (socket_emit st sid e) = sockets st"
  "userSockets (socket_emit st sid e) = userSockets st"
  "socketUsers (socket_emit st sid e) = socketUsers st"
  "rooms (socket_to_emit st sid r e) = rooms st"
  "sockets (socket_to_emit st sid r e) = sockets st"
  "userSockets (socket_to_emit st sid r e) = userSockets st"
  "socketUsers (socket_to_emit st sid r e) = socketUsers st"
  "rooms (io_to_emit st r e) = rooms st"
  "sockets (io_to_emit st r e) = sockets st"
  "userSockets (io_to_emit st r e) = userSockets st"
  "socketUsers (io_to_emit st r e) = socketUsers st"
  by (simp_all add: socket_emit_def socket_to_emit_def io_to_emit_def)

lemma set_ops [simp]:
  "set_delete x [] = []"
  "set (set_add x xs) = insert x (set xs)"
  "set (set_delete x xs) = set xs - {x}"
  "distinct xs \<Longrightarrow> distinct (set_add x xs)"
  "distinct xs \<Longrightarrow> distinct (set_delete x xs)"
  by (auto simp: set_add_def set_delete_def)

lemma set_delete_idem: "set_delete x (set_delete x xs) = set_delete x xs"
  by (simp add: set_delete_def)

lemma leave_previous_keys [fx]:
  "map fst (rooms (leave_previous sid u st r)) = map fst (rooms st)"
  "map fst (sockets (leave_previous sid u st r)) = map fst (sockets st)"
  by (simp_all add: leave_previous_def socket_leave_def Let_def fx split: option.split)

lemma leave_previous_rooms [fx]:
  "map_of (rooms (leave_previous sid u st r)) r' =
     (if r' = r \<and> r \<noteq> sid
      then map_option (\<lambda>rm. rm\<lparr>users := set_delete u (users rm)\<rparr>) (map_of (rooms st) r)
      else map_of (rooms st) r')"
  by (simp add: leave_previous_def socket_leave_def Let_def fx split: option.split)

lemma leave_previous_sockets [fx]:
  "map_of (sockets (leave_previous sid u st r)) sid' =
     (if sid' = sid \<and> r \<noteq> sid
      then map_option (\<lambda>s. s\<lparr>srooms := set_delete r (srooms s)\<rparr>) (map_of (sockets st) sid)
      else map_of (sockets st) sid')"
  by (simp add: leave_previous_def socket_leave_def Let_def fx split: option.split)

lemma leave_previous_maps [fx]:
  "userSockets (leave_previous sid u st r) = userSockets st"
  "socketUsers (leave_previous sid u st r) = socketUsers st"
  by (simp_all add: leave_previous_def socket_leave_def Let_def fx split: option.split)

lemma leave_all_keys [fx]:
  "map fst (rooms (foldl (leave_previous sid u) st rs)) = map fst (rooms st)"
  "map fst (sockets (foldl (leave_previous sid u) st rs)) = map fst (sockets st)"
  "userSockets (foldl (leave_previous sid u) st rs) = userSockets st"
  "socketUsers (foldl (leave_previous sid u) st rs) = socketUsers st"
  by (induction rs arbitrary: st; simp add: fx)+

lemma leave_all_rooms [fx]:
  "map_of (rooms (foldl (leave_previous sid u) st rs)) r' =
     (if r' \<in> set rs \<and> r' \<noteq> sid
      then map_option (\<lambda>rm. rm\<lparr>users := set_delete u (users rm)\<rparr>) (map_of (rooms st) r')
      else map_of (rooms st) r')"
proof (induction rs arbitrary: st)
  case Nil
  show ?case by simp
next
  case (Cons r rs)
  show ?case
    by (cases "map_of (rooms st) r'") (auto simp: Cons fx set_delete_idem)
qed

lemma leave_all_sockets [fx]:
  "map_of (sockets (foldl (leave_previous sid u) st rs)) sid' =
     (if sid' = sid
      then map_option (\<lambda>s. s\<lparr>srooms := filter (\<lambda>x. x \<notin> set rs \<or> x = sid) (srooms s)\<rparr>) (map_of (sockets st) sid)
      else map_of (sockets st) sid')"
proof (induction rs arbitrary: st)
  case Nil
  show ?case by (cases "map_of (sockets st) sid") auto
next
  case (Cons r rs)
  have eq: "filter (\<lambda>x. x \<notin> set rs \<or> x = sid) (if r \<noteq> sid then set_delete r xs else xs) =
    filter (\<lambda>x. x \<notin> set (r # rs) \<or> x = sid) xs" for xs
    by (auto simp: set_delete_def intro: filter_cong)
  show ?case
    using eq by (cases "map_of (sockets st) sid") (auto simp: Cons fx)
qed


lemma room_users_absent: "r \<notin> set (map fst (rooms st)) \<Longrightarrow> room_users st r = []"
  by (simp add: room_users_def map_of_eq_None_iff[THEN iffD2] split: option.split)

lemma room_users_map_room [fx]:
  "room_users (map_room f r st) r' = (if r' = r then (case map_of (rooms st) r of None \<Rightarrow> [] | Some rm \<Rightarrow> users (f rm)) else room_users st r')"
  by (simp add: room_users_def fx split: option.split)

lemma join_room_keys:
  "map fst (rooms (join_room st sid u roomId)) = map fst (rooms st)"
  "map fst (sockets (join_room st sid u roomId)) = map fst (sockets st)"
  "userSockets (join_room st sid u roomId) = userSockets st"
  "socketUsers (join_room st sid u roomId) = socketUsers st"
  by (simp_all add: join_room_def Let_def socket_join_def fx split: option.split prod.split)

lemma join_room_users:
  assumes "map_of (rooms st) r = Some rm"
  shows "room_users (join_room st sid u (JStr r)) r' =
     (if r' = r then set_add u (if r \<in> set (socket_rooms st sid) \<and> r \<noteq> sid
                                then set_delete u (room_users st r) else room_users st r)
      else if r' \<in> set (socket_rooms st sid) \<and> r' \<noteq> sid then set_delete u (room_users st r')
      else room_users st r')"
  using assms
  by (auto simp: join_room_def rooms_get_def Let_def socket_join_def room_users_def fx split: option.split)

lemma join_room_messages:
  "room_messages (join_room st sid u roomId) r' = room_messages st r'"
  by (auto simp: join_room_def rooms_get_def Let_def socket_join_def room_messages_def fx split: option.split jsval.split)

lemma join_room_sockets:
  assumes "map_of (rooms st) r = Some rm"
  shows "map_of (sockets (join_room st sid u (JStr r))) sid' =
     (if sid' = sid
      then map_option (\<lambda>s. s\<lparr>srooms := set_add r (filter (\<lambda>x. x = sid) (srooms s))\<rparr>) (map_of (sockets st) sid)
      else map_of (sockets st) sid')"
proof -
  have eq: "filter (\<lambda>x. x \<notin> set (socket_rooms st sid) \<or> x = sid) (srooms s) = filter (\<lambda>x. x = sid) (srooms s)"
    if "map_of (sockets st) sid = Some s" for s
    using that by (auto simp: socket_rooms_def intro: filter_cong)
  show ?thesis
    using assms eq
    by (cases "map_of (sockets st) sid") (auto simp: join_room_def rooms_get_def Let_def socket_join_def fx)
qed

lemma join_room_unknown:
  "rooms_get st roomId = None \<Longrightarrow> join_room st sid u roomId = socket_emit st sid (Error_ev ''Room not found'')"
  by (simp add: join_room_def)


lemma room_messages_absent: "r \<notin> set (map fst (rooms st)) \<Longrightarrow> room_messages st r = []"
  by (simp add: room_messages_def map_of_eq_None_iff[THEN iffD2] split: option.split)

lemma room_present: "map_of (rooms st) r = Some rm \<Longrightarrow> r \<in> set (map fst (rooms st))"
  by (metis map_of_eq_None_iff option.distinct(1) set_map)

lemma socket_present: "map_of (sockets st) sid = Some s \<Longrightarrow> sid \<in> set (map fst (sockets st))"
  by (metis map_of_eq_None_iff option.distinct(1) set_map)

subsection \<open>send\<close>

lemma slice_last_length: "length (slice_last n xs) \<le> n"
  by (simp add: slice_last_def)

lemma slice_last_short: "length xs \<le> n \<Longrightarrow> slice_last n xs = xs"
  by (simp add: slice_last_def)

text \<open>An accepted post.\<close>

lemma send_message_accepted:
  assumes "map_of (rooms st) r = Some rm" "u \<in> set (users rm)"
    and "js_get data (str ''roomId'') = Inr (JStr r)" "js_get data (str ''message'') = Inr (JStr b)"
  shows "send_message st sid u data mid ts =
     Inr (st\<lparr>rooms := AList.update r (rm\<lparr>messages := slice_last 100 (messages rm @ [\<lparr>msg_id = mid, msg_user = u, message = trim b, timestamp = ts\<rparr>])\<rparr>) (rooms st),
            outbox := outbox st @ map (\<lambda>s. (s, Message_ev \<lparr>msg_id = mid, msg_user = u, message = trim b, timestamp = ts\<rparr>)) (room_sockets st r)\<rparr>)"
  using assms
  by (auto simp: send_message_def rooms_get_def Let_def map_room_def room_messages_def update_conv' io_to_emit_def
      room_sockets_def socket_rooms_def slice_last_short)





lemma send_message_effect:
  assumes "send_message st sid u data mid ts = Inr st'"
  shows "sockets st' = sockets st" "map fst (rooms st') = map fst (rooms st)"
    "userSockets st' = userSockets st" "socketUsers st' = socketUsers st"
    "room_users st' r = room_users st r"
    "length (room_messages st r) \<le> 100 \<Longrightarrow> length (room_messages st' r) \<le> 100"
  using assms
  by (auto simp: send_message_def rooms_get_def Let_def room_messages_def room_users_def fx
      socket_emit_def slice_last_def
      split: sum.splits option.splits jsval.splits if_splits)

lemma typing_effect:
  assumes "typing st sid u data = Inr st'"
  shows "sockets st' = sockets st" "rooms st' = rooms st"
    "userSockets st' = userSockets st" "socketUsers st' = socketUsers st"
  using assms by (auto simp: typing_def split: sum.splits)

lemma socket_rooms_closed: "socket_rooms (transport_close st sid) sid = []"
  by (simp add: socket_rooms_def transport_close_def fx split: option.split)

lemma transport_close_fields:
  "rooms (transport_close st sid) = rooms st"
  "outbox (transport_close st sid) = outbox st"
  "userSockets (transport_close st sid) = userSockets st"
  "socketUsers (transport_close st sid) = socketUsers st"
  by (simp_all add: transport_close_def fx)

lemma disconnect_eq:
  "disconnect st sid u =
     (transport_close st sid)\<lparr>userSockets := AList.delete (user_id u) (userSockets st),
                              socketUsers := AList.delete sid (socketUsers st)\<rparr>"
  by (simp add: disconnect_def on_disconnect_def socket_rooms_closed transport_close_fields)

lemma disconnect_effect:
  "rooms (disconnect st sid u) = rooms st"
  "outbox (disconnect st sid u) = outbox st"
  "map fst (sockets (disconnect st sid u)) = map fst (sockets st)"
  "map_of (sockets (disconnect st sid u)) sid' =
     (if sid' = sid then map_option (\<lambda>s. s\<lparr>srooms := [], connected := False\<rparr>) (map_of (sockets st) sid)
      else map_of (sockets st) sid')"
  by (simp_all add: disconnect_eq transport_close_def fx)

lemma disconnect_rooms:
  "room_users (disconnect st sid u) r = room_users st r"
  "room_messages (disconnect st sid u) r = room_messages st r"
  by (simp_all add: room_users_def room_messages_def disconnect_effect)

subsection \<open>The invariant\<close>

lemma consistent_init: "consistent init"
  by (simp add: consistent_def init_def room_ok_def room_users_def room_messages_def)

lemma consistent_outbox:
  assumes "consistent st" "rooms st' = rooms st" "sockets st' = sockets st"
  shows "consistent st'"
proof -
  have "room_users st' = room_users st" "room_messages st' = room_messages st"
    by (simp_all add: fun_eq_iff room_users_def room_messages_def assms)
  with assms show ?thesis
    by (simp add: consistent_def room_ok_def socket_ok_def)
qed

lemma consistent_typing:
  assumes "consistent st" "typing st sid u data = Inr st'"
  shows "consistent st'"
  using assms typing_effect[OF assms(2)] by (auto intro: consistent_outbox)

lemma consistent_send:
  assumes "consistent st" "send_message st sid u data mid ts = Inr st'"
  shows "consistent st'"
  using assms(1) send_message_effect[OF assms(2)]
  by (simp add: consistent_def room_ok_def socket_ok_def)



lemma consistent_disconnect:
  assumes "consistent st"
  shows "consistent (disconnect st sid u)"
proof -
  let ?st = "disconnect st sid u"
  have "socket_ok ?st sid' s'" if "map_of (sockets ?st) sid' = Some s'" for sid' s'
    using that assms
    by (auto simp: consistent_def socket_ok_def disconnect_effect disconnect_rooms split: if_splits)
  moreover have "room_ok ?st r" for r
  proof -
    have "\<exists>s. map_of (sockets ?st) (ref v) = Some s \<and> user s = v" if "v \<in> set (room_users st r)" for v
    proof -
      from that assms obtain s where "map_of (sockets st) (ref v) = Some s" "user s = v"
        unfolding consistent_def room_ok_def by blast
      then show ?thesis by (auto simp: disconnect_effect)
    qed
    with assms show ?thesis
      by (simp add: consistent_def room_ok_def disconnect_rooms)
  qed
  ultimately show ?thesis
    using assms by (simp add: consistent_def disconnect_effect disconnect_rooms)
qed


lemma set_delete_notin: "x \<notin> set xs \<Longrightarrow> set_delete x xs = xs"
  by (auto simp: set_delete_def filter_id_conv)

lemma set_add_delete: "set_add x (set_delete x xs) = set_delete x xs @ [x]"
  by (simp add: set_add_def)

lemma set_add_notin: "x \<notin> set xs \<Longrightarrow> set_add x xs = xs @ [x]"
  by (simp add: set_add_def)

lemma consistent_socket:
  assumes "consistent st" "map_of (sockets st) sid = Some s" "connected s"
  shows "\<exists>rs. srooms s = sid # rs \<and> length rs \<le> 1 \<and> sid \<notin> set rs \<and>
           (\<forall>r. r \<in> set rs \<longleftrightarrow> user s \<in> set (room_users st r))"
    and "ref (user s) = sid" and "sid \<notin> set (map fst (rooms st))"
proof -
  from assms have ok: "socket_ok st sid s" by (simp add: consistent_def)
  with assms(3) obtain rs where rs: "srooms s = sid # rs" "length rs \<le> 1"
    "\<forall>r. r \<in> set rs \<longleftrightarrow> user s \<in> set (room_users st r)"
    unfolding socket_ok_def by blast
  from ok show k: "ref (user s) = sid" "sid \<notin> set (map fst (rooms st))"
    by (simp_all add: socket_ok_def)
  then have "room_users st sid = []" by (simp add: room_users_absent)
  with rs(3) have "sid \<notin> set rs" by simp
  with rs show "\<exists>rs. srooms s = sid # rs \<and> length rs \<le> 1 \<and> sid \<notin> set rs \<and>
           (\<forall>r. r \<in> set rs \<longleftrightarrow> user s \<in> set (room_users st r))" by blast
qed

lemma join_room_view:
  assumes "consistent st" "map_of (sockets st) sid = Some s" "connected s"
    and "map_of (rooms st) r = Some rm"
  shows "room_users (join_room st sid (user s) (JStr r)) r' =
           (if r' = r then set_delete (user s) (room_users st r) @ [user s]
            else set_delete (user s) (room_users st r'))"
    and "map_of (sockets (join_room st sid (user s) (JStr r))) sid' =
           (if sid' = sid then Some (s\<lparr>srooms := [sid, r]\<rparr>) else map_of (sockets st) sid')"
proof -
  from consistent_socket[OF assms(1-3)] obtain rs where rs: "srooms s = sid # rs" "sid \<notin> set rs"
    "\<And>r. r \<in> set rs \<longleftrightarrow> user s \<in> set (room_users st r)"
    "sid \<notin> set (map fst (rooms st))"
    by blast
  from assms(4) rs(4) have ne: "r \<noteq> sid" by (auto dest: room_present)
  have sr: "socket_rooms st sid = sid # rs" by (simp add: socket_rooms_def assms(2) rs(1))
  have in_rs: "(x \<in> set (socket_rooms st sid) \<and> x \<noteq> sid) \<longleftrightarrow> user s \<in> set (room_users st x)" for x
    using rs(2,3) sr by auto
  show "room_users (join_room st sid (user s) (JStr r)) r' =
           (if r' = r then set_delete (user s) (room_users st r) @ [user s]
            else set_delete (user s) (room_users st r'))"
    by (simp add: join_room_users[OF assms(4)] in_rs set_add_delete set_delete_notin set_add_notin)
  have "filter (\<lambda>x. x = sid) (srooms s) = [sid]"
    using rs(1,2) by (auto simp: filter_empty_conv)
  then show "map_of (sockets (join_room st sid (user s) (JStr r))) sid' =
           (if sid' = sid then Some (s\<lparr>srooms := [sid, r]\<rparr>) else map_of (sockets st) sid')"
    using ne by (simp add: join_room_sockets[OF assms(4)] assms(2) set_add_def)
qed


lemma consistent_join:
  assumes c: "consistent st" and s: "map_of (sockets st) sid = Some s" "connected s"
  shows "consistent (join_room st sid (user s) roomId)"
proof (cases "rooms_get st roomId")
  case None
  then show ?thesis
    by (simp add: join_room_unknown consistent_outbox[OF c] fx)
next
  case (Some p)
  then obtain r rm where rid: "roomId = JStr r" and rm: "map_of (rooms st) r = Some rm"
    by (auto simp: rooms_get_def split: jsval.splits)
  let ?u = "user s"
  let ?st = "join_room st sid ?u (JStr r)"
  note view = join_room_view[OF c s rm]
  have keys: "map fst (rooms ?st) = map fst (rooms st)"
    by (simp add: join_room_keys)
  have ref_u: "ref ?u = sid" and nokey: "sid \<notin> set (map fst (rooms st))"
    using consistent_socket(2,3)[OF c s] by simp_all
  have mem: "v \<in> set (room_users ?st r') \<longleftrightarrow> (if v = ?u then r' = r else v \<in> set (room_users st r'))" for v r'
    by (auto simp: view(1))
  have sock: "socket_ok ?st sid' s'" if "map_of (sockets ?st) sid' = Some s'" for sid' s'
  proof (cases "sid' = sid")
    case True
    with that have "s' = s\<lparr>srooms := [sid, r]\<rparr>" by (simp add: view(2))
    then show ?thesis
      using True s(2) ref_u nokey by (auto simp: socket_ok_def keys mem)
  next
    case False
    with that have old: "map_of (sockets st) sid' = Some s'" by (simp add: view(2))
    with c have ok: "socket_ok st sid' s'" by (simp add: consistent_def)
    then have "ref (user s') = sid'" by (simp add: socket_ok_def)
    with False ref_u have "user s' \<noteq> ?u" by auto
    with ok show ?thesis by (simp add: socket_ok_def keys mem)
  qed
  have room: "room_ok ?st r'" for r'
  proof -
    from c have ok: "room_ok st r'" by (simp add: consistent_def)
    have "\<exists>s'. map_of (sockets ?st) (ref v) = Some s' \<and> user s' = v" if "v \<in> set (room_users ?st r')" for v
    proof (cases "v = ?u")
      case True
      then show ?thesis by (simp add: view(2) ref_u)
    next
      case False
      with that have "v \<in> set (room_users st r')" by (simp add: mem)
      with ok obtain s' where "map_of (sockets st) (ref v) = Some s'" "user s' = v"
        unfolding room_ok_def by blast
      with False s(1) show ?thesis by (auto simp: view(2))
    qed
    moreover have "distinct (room_users ?st r')"
      using ok c by (auto simp: view(1) room_ok_def consistent_def)
    ultimately show ?thesis
      using ok by (simp add: room_ok_def join_room_messages)
  qed
  have one: "r1 = r2" if "v \<in> set (room_users ?st r1)" "v \<in> set (room_users ?st r2)" for v r1 r2
  proof (cases "v = ?u")
    case True
    with that show ?thesis by (simp add: mem)
  next
    case False
    with that c show ?thesis unfolding consistent_def by (simp add: mem)
  qed
  from c have "distinct (map fst (rooms st))" by (simp add: consistent_def)
  with sock room one show ?thesis
    unfolding rid consistent_def keys by blast
qed


lemma keys_update: "set (map fst (AList.update k v al)) = insert k (set (map fst al))"
  by (auto simp: update_keys)

lemma create_room_effect:
  assumes "rid \<notin> set (map fst (rooms st))"
  shows "room_users (create_room st rid nm) r = room_users st r"
    and "room_messages (create_room st rid nm) r = room_messages st r"
    and "set (map fst (rooms (create_room st rid nm))) \<subseteq> insert rid (set (map fst (rooms st)))"
    and "distinct (map fst (rooms st)) \<Longrightarrow> distinct (map fst (rooms (create_room st rid nm)))"
    and "sockets (create_room st rid nm) = sockets st"
  using assms room_users_absent[of rid st] room_messages_absent[of rid st]
  by (auto simp: create_room_def room_users_def room_messages_def update_conv' dom_update distinct_update)

lemma consistent_create:
  assumes "consistent st" "rid \<notin> set (map fst (rooms st))" "rid \<notin> set (map fst (sockets st))"
  shows "consistent (create_room st rid nm)"
proof -
  note eff = create_room_effect[OF assms(2), of nm]
  have "sid \<notin> set (map fst (rooms (create_room st rid nm)))"
    if "map_of (sockets st) sid = Some s" "sid \<notin> set (map fst (rooms st))" for sid s
    using that eff(3) assms(3) by (auto dest!: socket_present)
  with assms(1) eff(4) show ?thesis
    by (simp add: consistent_def socket_ok_def room_ok_def eff(1,2,5))
qed

lemma connection_effect:
  "rooms (connection st sid u0) = rooms st"
  "map_of (sockets (connection st sid u0)) sid' =
     (if sid' = sid then Some \<lparr>user = u0\<lparr>ref := sid\<rparr>, srooms = [sid], connected = True\<rparr>
      else map_of (sockets st) sid')"
  "set (map fst (sockets (connection st sid u0))) = insert sid (set (map fst (sockets st)))"
  "outbox (connection st sid u0) = outbox st"
  by (auto simp: connection_def Let_def update_conv' dom_update)

lemma connection_rooms:
  "room_users (connection st sid u0) r = room_users st r"
  "room_messages (connection st sid u0) r = room_messages st r"
  by (simp_all add: room_users_def room_messages_def connection_effect)

lemma consistent_connection:
  assumes c: "consistent st" and f: "sid \<notin> set (map fst (rooms st))" "sid \<notin> set (map fst (sockets st))"
  shows "consistent (connection st sid u0)"
proof -
  let ?st = "connection st sid u0"
  have old: "\<exists>s. map_of (sockets st) (ref v) = Some s \<and> user s = v" if "v \<in> set (room_users st r)" for v r
    using that c unfolding consistent_def room_ok_def by blast
  have ne: "ref v \<noteq> sid" if "v \<in> set (room_users st r)" for v r
    using old[OF that] f(2) by (auto dest: socket_present)
  have "socket_ok ?st sid' s'" if "map_of (sockets ?st) sid' = Some s'" for sid' s'
  proof (cases "sid' = sid")
    case True
    with that have "s' = \<lparr>user = u0\<lparr>ref := sid\<rparr>, srooms = [sid], connected = True\<rparr>"
      by (simp add: connection_effect)
    then show ?thesis
      using True f(1) ne[of "u0\<lparr>ref := sid\<rparr>"]
      by (auto simp: socket_ok_def connection_effect connection_rooms)
  next
    case False
    with that c show ?thesis
      by (simp add: consistent_def socket_ok_def connection_effect connection_rooms)
  qed
  moreover have "room_ok ?st r" for r
    using c old[of _ r] ne[of _ r]
    by (auto simp: consistent_def room_ok_def connection_effect connection_rooms)
  ultimately show ?thesis
    using c by (simp add: consistent_def connection_effect connection_rooms)
qed

lemma run_snoc:
  "run st (evs @ [e]) = (case run st evs of Inl x \<Rightarrow> Inl x | Inr st' \<Rightarrow> step st' e)"
  by (induction evs arbitrary: st) (auto split: sum.splits)

lemma step_keys:
  assumes "step st e = Inr st'"
  shows "set (map fst (rooms st')) \<union> set (map fst (sockets st')) \<subseteq>
         set (map fst (rooms st)) \<union> set (map fst (sockets st)) \<union> set (new_id e)"
proof -
  have same: ?thesis
    if "map fst (rooms st') = map fst (rooms st)" "map fst (sockets st') = map fst (sockets st)"
    unfolding that by blast
  show ?thesis
  proof (cases e)
    case (CreateRoom rid nm)
    with assms have "set (map fst (rooms st')) \<subseteq> insert rid (set (map fst (rooms st)))"
      and "sockets st' = sockets st"
      by (auto simp: create_room_def keys_update simp del: set_map split: if_splits)
    with CreateRoom show ?thesis by auto
  next
    case (Connect sid u)
    with assms show ?thesis
      using connection_effect(3)[of st sid u] by (auto simp: connection_effect(1))
  next
    case (JoinRoom sid roomId)
    with assms show ?thesis
      by (intro same) (auto simp: with_socket_def join_room_keys split: option.splits if_splits)
  next
    case (SendMessage sid data mid ts)
    with assms show ?thesis
      by (intro same) (auto simp: with_socket_def send_message_effect split: option.splits if_splits)
  next
    case (Typing sid data)
    with assms show ?thesis
      by (intro same) (auto simp: with_socket_def typing_effect split: option.splits if_splits)
  next
    case (Disconnect sid)
    with assms show ?thesis
      by (intro same) (auto simp: with_socket_def disconnect_effect split: option.splits if_splits)
  qed
qed

lemma step_consistent:
  assumes "consistent st" "step st e = Inr st'"
    and "set (new_id e) \<inter> (set (map fst (rooms st)) \<union> set (map fst (sockets st))) = {}"
  shows "consistent st'"
proof (cases e)
  case (CreateRoom rid nm)
  with assms show ?thesis by (auto intro: consistent_create)
next
  case (Connect sid u)
  with assms show ?thesis by (auto intro: consistent_connection)
next
  case (JoinRoom sid roomId)
  with assms show ?thesis
    by (auto simp: with_socket_def intro: consistent_join split: option.splits if_splits)
next
  case (SendMessage sid data mid ts)
  with assms show ?thesis
    by (auto simp: with_socket_def intro: consistent_send split: option.splits if_splits)
next
  case (Typing sid data)
  with assms show ?thesis
    by (auto simp: with_socket_def intro: consistent_typing split: option.splits if_splits)
next
  case (Disconnect sid)
  with assms show ?thesis
    by (auto simp: with_socket_def intro: consistent_disconnect split: option.splits if_splits)
qed

lemma reach:
  assumes "fresh_ids evs" "run init evs = Inr st"
  shows "consistent st"
    and "set (map fst (rooms st)) \<union> set (map fst (sockets st)) \<subseteq> set (concat (map new_id evs))"
  using assms
proof (induction evs arbitrary: st rule: rev_induct)
  case Nil
  { case 1 then show ?case by (simp add: consistent_init) }
  { case 2 then show ?case by (auto simp: init_def) }
next
  case (snoc e evs)
  { case 1
    from 1(2) obtain st0 where st0: "run init evs = Inr st0" "step st0 e = Inr st"
      by (auto simp: run_snoc split: sum.splits)
    from 1(1) have fr: "fresh_ids evs" "set (new_id e) \<inter> set (concat (map new_id evs)) = {}"
      by (auto simp: fresh_ids_def)
    from snoc.IH(2)[OF fr(1) st0(1)] fr(2)
    have "set (new_id e) \<inter> (set (map fst (rooms st0)) \<union> set (map fst (sockets st0))) = {}"
      by blast
    with snoc.IH(1)[OF fr(1) st0(1)] st0(2) show ?case by (rule step_consistent) }
  { case 2
    from 2(2) obtain st0 where st0: "run init evs = Inr st0" "step st0 e = Inr st"
      by (auto simp: run_snoc split: sum.splits)
    from 2(1) have fr: "fresh_ids evs"
      by (auto simp: fresh_ids_def)
    have "set (concat (map new_id (evs @ [e]))) = set (concat (map new_id evs)) \<union> set (new_id e)"
      by simp
    with snoc.IH(2)[OF fr st0(1)] step_keys[OF st0(2)]
    show ?case by blast }
qed




section \<open>Trimming\<close>

lemma trim_rest:
  "dropWhile is_ws b = trim b @ rev (takeWhile is_ws (rev (dropWhile is_ws b)))"
proof -
  let ?rest = "dropWhile is_ws b"
  have "?rest = rev (takeWhile is_ws (rev ?rest) @ dropWhile is_ws (rev ?rest))"
    by (simp only: takeWhile_dropWhile_id rev_rev_ident)
  also have "\<dots> = trim b @ rev (takeWhile is_ws (rev ?rest))"
    by (simp only: rev_append trim_def)
  finally show ?thesis .
qed

lemma trim_decomp:
  "\<exists>pre suf. b = pre @ trim b @ suf \<and> (\<forall>c \<in> set pre. is_ws c) \<and> (\<forall>c \<in> set suf. is_ws c)"
proof -
  let ?suf = "rev (takeWhile is_ws (rev (dropWhile is_ws b)))"
  have "b = takeWhile is_ws b @ trim b @ ?suf"
    using trim_rest[of b] by (metis takeWhile_dropWhile_id)
  moreover have "\<forall>c \<in> set (takeWhile is_ws b). is_ws c" by (auto dest: set_takeWhileD)
  moreover have "\<forall>c \<in> set ?suf. is_ws c" by (auto dest: set_takeWhileD)
  ultimately show ?thesis by blast
qed

lemma trim_ends:
  assumes "trim b \<noteq> []"
  shows "\<not> is_ws (hd (trim b))" "\<not> is_ws (last (trim b))"
proof -
  let ?rest = "dropWhile is_ws b"
  from assms have ne: "dropWhile is_ws (rev ?rest) \<noteq> []" by (simp add: trim_def)
  then show "\<not> is_ws (last (trim b))"
    by (simp add: trim_def last_rev hd_dropWhile)
  have rest: "?rest \<noteq> []"
  proof
    assume "?rest = []"
    with ne show False by simp
  qed
  then have "\<not> is_ws (hd ?rest)" by (rule hd_dropWhile)
  moreover have "hd ?rest = hd (trim b)"
    using assms by (subst trim_rest) simp
  ultimately show "\<not> is_ws (hd (trim b))" by simp
qed


section \<open>Sending\<close>

text \<open>
  C8. A send to an existing room of which the sender's user object is not a member is
  answered with the error 'You are not in this room', to the sending socket only; nothing
  else of the state changes: the history of the room stays as it is and nothing is
  broadcast.
\<close>

theorem not_a_member_rejected:
  assumes "js_get data (str ''roomId'') = Inr (JStr r)"
    and "map_of (rooms st) r = Some rm" and "u \<notin> set (room_users st r)"
  shows "send_message st sid u data mid ts =
           Inr (st\<lparr>outbox := outbox st @ [(sid, Error_ev ''You are not in this room'')]\<rparr>)"
proof -
  from assms(1) obtain msg where "js_get data (str ''message'') = Inr msg"
    by (cases data) auto
  with assms show ?thesis
    by (simp add: send_message_def rooms_get_def room_users_def socket_emit_def)
qed

theorem not_a_member_rejected_witness:
  "js_get (ex_data (JStr (str ''r2'')) (JStr (str ''hi''))) (str ''roomId'') = Inr (JStr (str ''r2'')) \<and>
   map_of (rooms st_both) (str ''r2'') = Some \<lparr>name = str ''random'', messages = [], users = []\<rparr> \<and>
   ann_A \<notin> set (room_users st_both (str ''r2'')) \<and>
   send_message st_both (str ''A'') ann_A (ex_data (JStr (str ''r2'')) (JStr (str ''hi''))) (str ''m'') (str ''t'') =
     Inr (st_both\<lparr>outbox := outbox st_both @ [(str ''A'', Error_ev ''You are not in this room'')]\<rparr>)"
proof -
  have h1: "js_get (ex_data (JStr (str ''r2'')) (JStr (str ''hi''))) (str ''roomId'') = Inr (JStr (str ''r2''))"
    by code_simp
  have h2: "map_of (rooms st_both) (str ''r2'') = Some \<lparr>name = str ''random'', messages = [], users = []\<rparr>"
    by code_simp
  have h3: "ann_A \<notin> set (room_users st_both (str ''r2''))"
    by code_simp
  from not_a_member_rejected[OF h1 h2 h3] h1 h2 h3 show ?thesis by blast
qed

text \<open>
  C10. The send handler throws on some payloads: when the room exists and the sender is a
  member of it, a \<open>message\<close> that is not a string (or is missing) makes \<open>message.trim()\<close>
  throw a TypeError, past the membership check and with no error event. When \<open>message\<close>
  is a string the handler returns, in every state.
\<close>

theorem send_message_not_total:
  "(js_get data (str ''roomId'') = Inr (JStr r) \<and> js_get data (str ''message'') = Inr msg \<and>
    map_of (rooms st) r = Some rm \<and> u \<in> set (room_users st r) \<and> (\<forall>b. msg \<noteq> JStr b)
      \<longrightarrow> send_message st sid u data mid ts = Inl TypeError) \<and>
   (js_get data (str ''message'') = Inr (JStr b)
      \<longrightarrow> (\<exists>st'. send_message st sid u data mid ts = Inr st'))"
proof (intro conjI impI)
  assume "js_get data (str ''roomId'') = Inr (JStr r) \<and> js_get data (str ''message'') = Inr msg \<and>
    map_of (rooms st) r = Some rm \<and> u \<in> set (room_users st r) \<and> (\<forall>b. msg \<noteq> JStr b)"
  then show "send_message st sid u data mid ts = Inl TypeError"
    by (cases msg) (auto simp: send_message_def rooms_get_def room_users_def)
next
  assume m: "js_get data (str ''message'') = Inr (JStr b)"
  then obtain roomId where "js_get data (str ''roomId'') = Inr roomId"
    by (cases data) auto
  with m show "\<exists>st'. send_message st sid u data mid ts = Inr st'"
    by (simp add: send_message_def Let_def split: option.split prod.split)
qed

theorem send_message_not_total_witness:
  "send_message st_both (str ''A'') ann_A (ex_data (JStr (str ''r1'')) JUndefined) (str ''m'') (str ''t'') = Inl TypeError \<and>
   send_message st_both (str ''A'') ann_A (ex_data (JStr (str ''r1'')) (JNum 5)) (str ''m'') (str ''t'') = Inl TypeError \<and>
   (\<exists>st'. send_message st_both (str ''A'') ann_A (ex_data (JStr (str ''r1'')) (JStr (str ''hi''))) (str ''m'') (str ''t'') = Inr st')"
proof -
  have r: "js_get (ex_data (JStr (str ''r1'')) v) (str ''roomId'') = Inr (JStr (str ''r1''))" for v
    by (simp add: ex_data_def str_def)
  have m: "js_get (ex_data (JStr (str ''r1'')) v) (str ''message'') = Inr v" for v
    by (simp add: ex_data_def str_def)
  have rm: "map_of (rooms st_both) (str ''r1'') =
      Some \<lparr>name = str ''general'', messages = [], users = [ann_A, bob_B]\<rparr>"
    by code_simp
  have mem: "ann_A \<in> set (room_users st_both (str ''r1''))"
    by code_simp
  have "send_message st_both (str ''A'') ann_A (ex_data (JStr (str ''r1'')) JUndefined) (str ''m'') (str ''t'') = Inl TypeError"
    using send_message_not_total[where data = "ex_data (JStr (str ''r1'')) JUndefined" and r = "str ''r1''"
        and msg = JUndefined and st = st_both and u = ann_A]
      r m rm mem by simp
  moreover have "send_message st_both (str ''A'') ann_A (ex_data (JStr (str ''r1'')) (JNum 5)) (str ''m'') (str ''t'') = Inl TypeError"
    using send_message_not_total[where data = "ex_data (JStr (str ''r1'')) (JNum 5)" and r = "str ''r1''"
        and msg = "JNum 5" and st = st_both and u = ann_A]
      r m rm mem by simp
  moreover have "\<exists>st'. send_message st_both (str ''A'') ann_A (ex_data (JStr (str ''r1'')) (JStr (str ''hi''))) (str ''m'') (str ''t'') = Inr st'"
    using send_message_not_total[where data = "ex_data (JStr (str ''r1'')) (JStr (str ''hi''))"
        and b = "str ''hi''"] m by blast
  ultimately show ?thesis by blast
qed




lemma slice_last_snoc: "slice_last 100 (xs @ [m]) \<noteq> [] \<and> last (slice_last 100 (xs @ [m])) = m"
  by (simp add: slice_last_def)

lemma send_message_accepted_view:
  assumes "map_of (rooms st) r = Some rm" "u \<in> set (users rm)"
    and "js_get data (str ''roomId'') = Inr (JStr r)" "js_get data (str ''message'') = Inr (JStr b)"
    and "send_message st sid u data mid ts = Inr st'"
  shows "room_messages st' r =
           slice_last 100 (room_messages st r @ [\<lparr>msg_id = mid, msg_user = u, message = trim b, timestamp = ts\<rparr>])"
    and "r' \<noteq> r \<Longrightarrow> room_messages st' r' = room_messages st r'"
    and "sent st st' =
           map (\<lambda>s. (s, Message_ev \<lparr>msg_id = mid, msg_user = u, message = trim b, timestamp = ts\<rparr>)) (room_sockets st r)"
  using assms(5) unfolding send_message_accepted[OF assms(1-4)]
  by (auto simp: room_messages_def sent_def update_conv' assms(1))

text \<open>
  C5 (counterexample). Socket \<open>A\<close>, a member of room \<open>r1\<close>, sends a body of two blanks: no
  error is reported, a message with the empty body is appended to the history and it is
  broadcast to both members.
\<close>

theorem empty_message_counterexample:
  "run st_both [ex_send (str ''A'') (JStr (str ''r1'')) (JStr (str ''  ''))] =
     Inr (projr (run st_both [ex_send (str ''A'') (JStr (str ''r1'')) (JStr (str ''  ''))])) \<and>
   room_messages (projr (run st_both [ex_send (str ''A'') (JStr (str ''r1'')) (JStr (str ''  ''))])) (str ''r1'') =
     [\<lparr>msg_id = str ''m'', msg_user = ann_A, message = [], timestamp = str ''t''\<rparr>] \<and>
   sent st_both (projr (run st_both [ex_send (str ''A'') (JStr (str ''r1'')) (JStr (str ''  ''))])) =
     [(str ''A'', Message_ev \<lparr>msg_id = str ''m'', msg_user = ann_A, message = [], timestamp = str ''t''\<rparr>),
      (str ''B'', Message_ev \<lparr>msg_id = str ''m'', msg_user = ann_A, message = [], timestamp = str ''t''\<rparr>)]"
  by code_simp

text \<open>
  C5 (amended). The server has no check for an empty body: a send by a member whose body
  is empty after trimming is accepted like any other. The message, with the empty body, is
  appended to the history of the room (which keeps its last 100 messages) and is broadcast
  to the sockets in the room; no error event is sent.
\<close>

theorem empty_message_accepted:
  assumes "js_get data (str ''roomId'') = Inr (JStr r)" and "js_get data (str ''message'') = Inr (JStr b)"
    and "trim b = []"
    and "map_of (rooms st) r = Some rm" and "u \<in> set (users rm)"
  shows "send_message st sid u data mid ts =
     Inr (st\<lparr>rooms := AList.update r
                 (rm\<lparr>messages := slice_last 100
                    (messages rm @ [\<lparr>msg_id = mid, msg_user = u, message = [], timestamp = ts\<rparr>])\<rparr>) (rooms st),
            outbox := outbox st @
              map (\<lambda>s. (s, Message_ev \<lparr>msg_id = mid, msg_user = u, message = [], timestamp = ts\<rparr>))
                (room_sockets st r)\<rparr>)"
  using send_message_accepted[OF assms(4,5,1,2)] assms(3) by simp

theorem empty_message_accepted_witness:
  "js_get (ex_data (JStr (str ''r1'')) (JStr (str ''  ''))) (str ''roomId'') = Inr (JStr (str ''r1'')) \<and>
   js_get (ex_data (JStr (str ''r1'')) (JStr (str ''  ''))) (str ''message'') = Inr (JStr (str ''  '')) \<and>
   trim (str ''  '') = [] \<and>
   map_of (rooms st_both) (str ''r1'') = Some \<lparr>name = str ''general'', messages = [], users = [ann_A, bob_B]\<rparr> \<and>
   send_message st_both (str ''A'') ann_A (ex_data (JStr (str ''r1'')) (JStr (str ''  ''))) (str ''m'') (str ''t'') =
     Inr (st_both\<lparr>rooms := AList.update (str ''r1'')
                 (\<lparr>name = str ''general'', messages = [], users = [ann_A, bob_B]\<rparr>\<lparr>messages := slice_last 100
                    ([] @ [\<lparr>msg_id = str ''m'', msg_user = ann_A, message = [], timestamp = str ''t''\<rparr>])\<rparr>) (rooms st_both),
            outbox := outbox st_both @
              map (\<lambda>s. (s, Message_ev \<lparr>msg_id = str ''m'', msg_user = ann_A, message = [], timestamp = str ''t''\<rparr>))
                (room_sockets st_both (str ''r1''))\<rparr>)"
proof -
  have h1: "js_get (ex_data (JStr (str ''r1'')) (JStr (str ''  ''))) (str ''roomId'') = Inr (JStr (str ''r1''))"
    by code_simp
  have h2: "js_get (ex_data (JStr (str ''r1'')) (JStr (str ''  ''))) (str ''message'') = Inr (JStr (str ''  ''))"
    by code_simp
  have h3: "trim (str ''  '') = []"
    by code_simp
  have h4: "map_of (rooms st_both) (str ''r1'') = Some \<lparr>name = str ''general'', messages = [], users = [ann_A, bob_B]\<rparr>"
    by code_simp
  have h5: "ann_A \<in> set (users \<lparr>name = str ''general'', messages = [], users = [ann_A, bob_B]\<rparr>)"
    by simp
  from empty_message_accepted[OF h1 h2 h3 h4 h5, of "str ''A''" "str ''m''" "str ''t''"] h1 h2 h3 h4
  show ?thesis by simp
qed

text \<open>
  C9. The body of an accepted post, as it is stored in the history of the room and
  broadcast to the sockets in the room, is the body the client sent with the whitespace at
  both ends removed: what is cut off in front and behind is whitespace only, and what
  remains neither starts nor ends with whitespace.
\<close>

theorem body_is_trimmed:
  assumes "js_get data (str ''roomId'') = Inr (JStr r)" and "js_get data (str ''message'') = Inr (JStr b)"
    and "map_of (rooms st) r = Some rm" and "u \<in> set (users rm)"
  shows "\<exists>st' m. send_message st sid u data mid ts = Inr st' \<and>
           message m = trim b \<and>
           room_messages st' r = slice_last 100 (room_messages st r @ [m]) \<and>
           last (room_messages st' r) = m \<and>
           sent st st' = map (\<lambda>s. (s, Message_ev m)) (room_sockets st r) \<and>
           (\<exists>pre suf. b = pre @ trim b @ suf \<and> (\<forall>c \<in> set pre. is_ws c) \<and> (\<forall>c \<in> set suf. is_ws c)) \<and>
           (trim b \<noteq> [] \<longrightarrow> \<not> is_ws (hd (trim b)) \<and> \<not> is_ws (last (trim b)))"
proof -
  let ?m = "\<lparr>msg_id = mid, msg_user = u, message = trim b, timestamp = ts\<rparr>"
  from send_message_accepted[OF assms(3,4,1,2)]
  obtain st' where st': "send_message st sid u data mid ts = Inr st'" by blast
  note view = send_message_accepted_view[OF assms(3,4,1,2) st']
  have "last (room_messages st' r) = ?m"
    by (simp add: view(1) slice_last_snoc)
  with st' view(1,3) trim_decomp[of b] trim_ends[of b] show ?thesis
    by (intro exI[of _ st'] exI[of _ ?m]) simp
qed

theorem body_is_trimmed_witness:
  "js_get (ex_data (JStr (str ''r1'')) (JStr (str '' hi ''))) (str ''roomId'') = Inr (JStr (str ''r1'')) \<and>
   js_get (ex_data (JStr (str ''r1'')) (JStr (str '' hi ''))) (str ''message'') = Inr (JStr (str '' hi '')) \<and>
   map_of (rooms st_both) (str ''r1'') = Some \<lparr>name = str ''general'', messages = [], users = [ann_A, bob_B]\<rparr> \<and>
   trim (str '' hi '') = str ''hi'' \<and>
   (\<exists>st' m. send_message st_both (str ''A'') ann_A (ex_data (JStr (str ''r1'')) (JStr (str '' hi ''))) (str ''m'') (str ''t'') = Inr st' \<and>
      message m = str ''hi'' \<and> room_messages st' (str ''r1'') = slice_last 100 (room_messages st_both (str ''r1'') @ [m]) \<and>
      sent st_both st' = map (\<lambda>s. (s, Message_ev m)) (room_sockets st_both (str ''r1'')))"
proof -
  have h1: "js_get (ex_data (JStr (str ''r1'')) (JStr (str '' hi ''))) (str ''roomId'') = Inr (JStr (str ''r1''))"
    by code_simp
  have h2: "js_get (ex_data (JStr (str ''r1'')) (JStr (str '' hi ''))) (str ''message'') = Inr (JStr (str '' hi ''))"
    by code_simp
  have h3: "map_of (rooms st_both) (str ''r1'') = Some \<lparr>name = str ''general'', messages = [], users = [ann_A, bob_B]\<rparr>"
    by code_simp
  have h4: "ann_A \<in> set (users \<lparr>name = str ''general'', messages = [], users = [ann_A, bob_B]\<rparr>)"
    by simp
  have t: "trim (str '' hi '') = str ''hi''"
    by code_simp
  from body_is_trimmed[OF h1 h2 h3 h4, of "str ''A''" "str ''m''" "str ''t''"]
  obtain st' m where "send_message st_both (str ''A'') ann_A (ex_data (JStr (str ''r1'')) (JStr (str '' hi ''))) (str ''m'') (str ''t'') = Inr st'"
    "message m = trim (str '' hi '')"
    "room_messages st' (str ''r1'') = slice_last 100 (room_messages st_both (str ''r1'') @ [m])"
    "sent st_both st' = map (\<lambda>s. (s, Message_ev m)) (room_sockets st_both (str ''r1''))"
    by blast
  with h1 h2 h3 t show ?thesis by (simp only:) blast
qed




section \<open>Membership\<close>

lemma filter_eq_single: "distinct xs \<Longrightarrow> x \<in> set xs \<Longrightarrow> filter (\<lambda>y. y = x) xs = [x]"
  by (induction xs) (auto simp: filter_empty_conv)

lemma filter_at_most_one:
  "distinct xs \<Longrightarrow> (\<And>x y. P x \<Longrightarrow> P y \<Longrightarrow> x = y) \<Longrightarrow> length (filter P xs) \<le> 1"
proof (induction xs)
  case Nil
  show ?case by simp
next
  case (Cons a xs)
  show ?case
  proof (cases "P a")
    case True
    with Cons.prems have "filter P xs = []"
      by (auto simp: filter_empty_conv)
    with True show ?thesis by simp
  next
    case False
    with Cons show ?thesis by simp
  qed
qed

lemma member_rooms_only:
  assumes "distinct (map fst (rooms st))" "r \<in> set (map fst (rooms st))"
    and "\<And>r'. u \<in> set (room_users st r') \<longleftrightarrow> r' = r"
  shows "member_rooms st u = [r]"
  using assms(1,2) by (simp add: member_rooms_def assms(3) filter_eq_single del: set_map)

lemma member_rooms_none:
  assumes "\<And>r'. u \<notin> set (room_users st r')"
  shows "member_rooms st u = []"
  by (simp add: member_rooms_def assms)

lemma member_rooms_cong:
  assumes "map fst (rooms st') = map fst (rooms st)"
    and "\<And>r. u \<in> set (room_users st' r) \<longleftrightarrow> u \<in> set (room_users st r)"
  shows "member_rooms st' u = member_rooms st u"
  by (simp add: member_rooms_def assms)

lemma member_rooms_at_most_one:
  assumes "consistent st"
  shows "length (member_rooms st u) \<le> 1"
proof -
  from assms have "distinct (map fst (rooms st))"
    and "\<And>r1 r2. u \<in> set (room_users st r1) \<Longrightarrow> u \<in> set (room_users st r2) \<Longrightarrow> r1 = r2"
    unfolding consistent_def by blast+
  then show ?thesis
    unfolding member_rooms_def by (rule filter_at_most_one)
qed

lemma srooms_member_rooms:
  assumes "consistent st" "map_of (sockets st) sid = Some s" "connected s"
  shows "srooms s = sid # member_rooms st (user s)"
proof -
  from consistent_socket(1)[OF assms] obtain rs where rs: "srooms s = sid # rs" "length rs \<le> 1"
    "\<And>r. r \<in> set rs \<longleftrightarrow> user s \<in> set (room_users st r)" by blast
  from assms(1) have d: "distinct (map fst (rooms st))" by (simp add: consistent_def)
  show ?thesis
  proof (cases rs)
    case Nil
    with rs(3) have "member_rooms st (user s) = []" by (intro member_rooms_none) simp
    with Nil rs(1) show ?thesis by simp
  next
    case (Cons r0 rest)
    with rs(2) have rs0: "rs = [r0]" by simp
    with rs(3) have iff: "user s \<in> set (room_users st r') \<longleftrightarrow> r' = r0" for r' by auto
    from iff[of r0] have "user s \<in> set (room_users st r0)" by simp
    then have "room_users st r0 \<noteq> []" by force
    then have "r0 \<in> set (map fst (rooms st))" using room_users_absent[of r0 st] by blast
    with d iff have "member_rooms st (user s) = [r0]" by (intro member_rooms_only)
    with rs0 rs(1) show ?thesis by simp
  qed
qed

lemma join_room_member:
  assumes "consistent st" "map_of (sockets st) sid = Some s" "connected s"
    and "map_of (rooms st) r = Some rm"
  shows "member_rooms (join_room st sid (user s) (JStr r)) (user s) = [r]"
proof -
  from assms(1) have "distinct (map fst (rooms st))" by (simp add: consistent_def)
  moreover from assms(4) have "r \<in> set (map fst (rooms st))" by (rule room_present)
  ultimately show ?thesis
    by (intro member_rooms_only) (auto simp: join_room_keys join_room_view(1)[OF assms])
qed

lemma leave_all_member:
  assumes "consistent st" "map_of (sockets st) sid = Some s" "connected s"
  shows "member_rooms (foldl (leave_previous sid (user s)) st (socket_rooms st sid)) (user s) = []"
proof (rule member_rooms_none)
  fix r'
  from consistent_socket(1)[OF assms] obtain rs where rs: "srooms s = sid # rs" "sid \<notin> set rs"
    "\<And>r. r \<in> set rs \<longleftrightarrow> user s \<in> set (room_users st r)" by blast
  have sr: "socket_rooms st sid = sid # rs" by (simp add: socket_rooms_def assms(2) rs(1))
  have "user s \<in> set (room_users st r') \<Longrightarrow> r' \<in> set (socket_rooms st sid) \<and> r' \<noteq> sid"
    using rs(2,3) sr by auto
  then show "user s \<notin> set (room_users (foldl (leave_previous sid (user s)) st (socket_rooms st sid)) r')"
    by (cases "map_of (rooms st) r'") (auto simp: room_users_def fx)
qed


lemma create_room_member:
  assumes "rid \<notin> set (map fst (rooms st))"
  shows "member_rooms (create_room st rid nm) u = member_rooms st u"
proof -
  have "room_users st rid = []" using assms by (rule room_users_absent)
  then have "filter (\<lambda>r. u \<in> set (room_users st r)) (map fst (rooms st) @ [rid]) = member_rooms st u"
    by (simp add: member_rooms_def)
  moreover have "map fst (rooms (create_room st rid nm)) =
      (if nm = [] \<or> length (trim nm) = 0 then map fst (rooms st) else map fst (rooms st) @ [rid])"
    using assms by (simp add: create_room_def update_keys)
  ultimately show ?thesis
    by (simp add: member_rooms_def create_room_effect(1)[OF assms] del: set_map)
qed

text \<open>
  An event that is not a connection, a join or a disconnection of socket \<open>sid\<close> leaves
  the socket connected and the rooms of its user object as they are.
\<close>

lemma step_keeps_member:
  assumes c: "consistent st" and st': "step st e = Inr st'"
    and f: "set (new_id e) \<inter> (set (map fst (rooms st)) \<union> set (map fst (sockets st))) = {}"
    and s: "map_of (sockets st) sid = Some s" "connected s"
    and nm: "\<not> moves sid e"
  shows "member_rooms st' (user s) = member_rooms st (user s)"
    and "map_of (sockets st') sid = Some s"
proof -
  have "member_rooms st' (user s) = member_rooms st (user s) \<and> map_of (sockets st') sid = Some s"
  proof (cases e)
    case (CreateRoom rid nm)
    with f have "rid \<notin> set (map fst (rooms st))" by simp
    with CreateRoom st' s show ?thesis
      by (auto simp: create_room_member create_room_effect(5))
  next
    case (Connect sid' u0)
    with nm have "sid' \<noteq> sid" by simp
    with Connect st' s show ?thesis
      by (auto simp: connection_effect intro!: member_rooms_cong simp: connection_rooms)
  next
    case (JoinRoom sid' roomId)
    with nm have ne: "sid' \<noteq> sid" by simp
    show ?thesis
    proof (cases "map_of (sockets st) sid'")
      case None
      with JoinRoom st' s show ?thesis by (simp add: with_socket_def)
    next
      case (Some s')
      show ?thesis
      proof (cases "connected s'")
        case False
        with Some JoinRoom st' s show ?thesis by (simp add: with_socket_def)
      next
        case True
        with Some JoinRoom st' have eq: "st' = join_room st sid' (user s') roomId"
          by (simp add: with_socket_def)
        show ?thesis
        proof (cases "rooms_get st roomId")
          case None
          then show ?thesis
            using s by (simp add: eq join_room_unknown member_rooms_def room_users_def fx)
        next
          case (Some p)
          then obtain r rm where rid: "roomId = JStr r" and rm: "map_of (rooms st) r = Some rm"
            by (auto simp: rooms_get_def split: jsval.splits)
          note view = join_room_view[OF c \<open>map_of (sockets st) sid' = Some s'\<close> True rm]
          have "ref (user s') = sid'" "ref (user s) = sid"
            using consistent_socket(2)[OF c \<open>map_of (sockets st) sid' = Some s'\<close> True]
              consistent_socket(2)[OF c s] by simp_all
          with ne have "user s \<noteq> user s'" by auto
          then have "member_rooms st' (user s) = member_rooms st (user s)"
            unfolding eq rid by (intro member_rooms_cong) (auto simp: join_room_keys view(1))
          with ne s show ?thesis by (simp add: eq rid view(2))
        qed
      qed
    qed
  next
    case (SendMessage sid' data mid ts)
    with st' s show ?thesis
      by (auto simp: with_socket_def send_message_effect split: option.splits if_splits
          intro!: member_rooms_cong)
  next
    case (Typing sid' data)
    with st' s show ?thesis
      by (auto simp: with_socket_def typing_effect member_rooms_def room_users_def
          split: option.splits if_splits)
  next
    case (Disconnect sid')
    with nm have "sid' \<noteq> sid" by simp
    with Disconnect st' s show ?thesis
      by (auto simp: with_socket_def disconnect_effect disconnect_rooms member_rooms_def
          split: option.splits if_splits)
  qed
  then show "member_rooms st' (user s) = member_rooms st (user s)"
    and "map_of (sockets st') sid = Some s" by simp_all
qed

lemma run_append:
  "run st (xs @ ys) = (case run st xs of Inl x \<Rightarrow> Inl x | Inr st' \<Rightarrow> run st' ys)"
  by (induction xs arbitrary: st) (auto split: sum.splits)

lemma run_keeps_member:
  assumes "fresh_ids (evs @ evs')" and "run init evs = Inr st" and "run st evs' = Inr st'"
    and "map_of (sockets st) sid = Some s" "connected s"
    and "\<not> list_ex (moves sid) evs'"
  shows "member_rooms st' (user s) = member_rooms st (user s) \<and> map_of (sockets st') sid = Some s"
  using assms(1,3,6)
proof (induction evs' arbitrary: st' rule: rev_induct)
  case Nil
  then show ?case using assms(4) by simp
next
  case (snoc e evs')
  from snoc.prems(2) obtain st1 where st1: "run st evs' = Inr st1" "step st1 e = Inr st'"
    by (auto simp: run_snoc split: sum.splits)
  from snoc.prems(1) have fr: "fresh_ids (evs @ evs')"
    and dj: "set (new_id e) \<inter> set (concat (map new_id (evs @ evs'))) = {}"
    by (auto simp: fresh_ids_def)
  from snoc.prems(3) have nm: "\<not> list_ex (moves sid) evs'" "\<not> moves sid e"
    by simp_all
  from snoc.IH[OF fr st1(1) nm(1)]
  have ih: "member_rooms st1 (user s) = member_rooms st (user s)" "map_of (sockets st1) sid = Some s"
    by simp_all
  from assms(2) st1(1) have r1: "run init (evs @ evs') = Inr st1"
    by (simp add: run_append)
  from reach[OF fr r1] dj
  have c1: "consistent st1"
    and f1: "set (new_id e) \<inter> (set (map fst (rooms st1)) \<union> set (map fst (sockets st1))) = {}"
    by blast+
  from step_keeps_member[OF c1 st1(2) f1 ih(2) assms(5) nm(2)] ih
  show ?case by simp
qed


text \<open>
  What the server keeps of the invariant. Along every run whose generated ids are
  distinct, each user object is a member of at most one room, and the rooms of the library
  that a connected socket is in are the room of its own id and the rooms its user object
  is a member of. When a connected socket joins an existing room, the loop over its
  previous rooms first takes its user object out of every room, the handler then makes it
  a member of the joined room only, and the socket stays in exactly that room, as a member
  and in the library, for as long as it neither joins again nor disconnects.
\<close>

lemma one_room_while_connected:
  assumes "fresh_ids (evs @ evs')" and "run init evs = Inr st" and "run st evs' = Inr st'"
  shows "length (member_rooms st' u) \<le> 1 \<and>
    (\<forall>sid' s'. map_of (sockets st') sid' = Some s' \<and> connected s' \<longrightarrow>
       socket_rooms st' sid' = sid' # member_rooms st' (user s')) \<and>
    (\<forall>sid s roomId r rm es.
       evs' = JoinRoom sid roomId # es \<and> map_of (sockets st) sid = Some s \<and> connected s \<and>
       rooms_get st roomId = Some (r, rm) \<and> \<not> list_ex (moves sid) es \<longrightarrow>
         member_rooms (foldl (leave_previous sid (user s)) st (socket_rooms st sid)) (user s) = [] \<and>
         member_rooms (join_room st sid (user s) roomId) (user s) = [r] \<and>
         member_rooms st' (user s) = [r] \<and>
         socket_rooms st' sid = [sid, r])"
proof (intro conjI allI impI)
  from assms(2,3) have "run init (evs @ evs') = Inr st'" by (simp add: run_append)
  from reach(1)[OF assms(1) this] have c': "consistent st'" .
  then show "length (member_rooms st' u) \<le> 1"
    by (rule member_rooms_at_most_one)
  fix sid' s'
  assume "map_of (sockets st') sid' = Some s' \<and> connected s'"
  then have s': "map_of (sockets st') sid' = Some s'" "connected s'" by simp_all
  from srooms_member_rooms[OF c' s'] s'(1)
  show "socket_rooms st' sid' = sid' # member_rooms st' (user s')"
    by (simp add: socket_rooms_def)
next
  fix sid s roomId r rm es
  assume a: "evs' = JoinRoom sid roomId # es \<and> map_of (sockets st) sid = Some s \<and> connected s \<and>
       rooms_get st roomId = Some (r, rm) \<and> \<not> list_ex (moves sid) es"
  then have s: "map_of (sockets st) sid = Some s" "connected s"
    and rid: "roomId = JStr r" and rm: "map_of (rooms st) r = Some rm"
    and nm: "\<not> list_ex (moves sid) es" and ev: "evs' = JoinRoom sid roomId # es"
    by (auto simp: rooms_get_def split: jsval.splits)
  from assms(1) have f0: "fresh_ids evs" by (simp add: fresh_ids_def)
  from reach(1)[OF f0 assms(2)] have c: "consistent st" .
  let ?st1 = "join_room st sid (user s) roomId"
  show "member_rooms (foldl (leave_previous sid (user s)) st (socket_rooms st sid)) (user s) = []"
    using c s by (rule leave_all_member)
  show j: "member_rooms ?st1 (user s) = [r]"
    unfolding rid using c s rm by (rule join_room_member)
  from assms(3) s have r1: "run ?st1 es = Inr st'"
    by (simp add: ev with_socket_def)
  from assms(2) s have r0: "run init (evs @ [JoinRoom sid roomId]) = Inr ?st1"
    by (simp add: run_snoc with_socket_def)
  from assms(1) have f1: "fresh_ids ((evs @ [JoinRoom sid roomId]) @ es)"
    by (simp add: ev)
  have s1: "map_of (sockets ?st1) sid = Some (s\<lparr>srooms := [sid, r]\<rparr>)"
    unfolding rid by (simp add: join_room_view(2)[OF c s rm])
  from run_keeps_member[OF f1 r0 r1 s1 _ nm] s(2) j
  show "member_rooms st' (user s) = [r]" by simp
  from run_keeps_member[OF f1 r0 r1 s1 _ nm] s(2)
  show "socket_rooms st' sid = [sid, r]" by (simp add: socket_rooms_def)
qed

text \<open>
  Socket \<open>A\<close> is in room \<open>r1\<close> and moves to \<open>r2\<close>, then \<open>B\<close> joins \<open>r1\<close> and posts there:
  \<open>A\<close> is a member of \<open>r2\<close> only, is in the rooms \<open>A\<close> and \<open>r2\<close> of the library, and the
  post of \<open>B\<close> goes to \<open>B\<close> alone.
\<close>

lemma one_room_while_connected_example:
  "fresh_ids (ex_one @ ex_move) \<and> run init ex_one = Inr st_one \<and>
   run st_one ex_move = Inr (projr (run st_one ex_move)) \<and>
   map_of (sockets st_one) (str ''A'') = Some \<lparr>user = ann_A, srooms = [str ''A'', str ''r1''], connected = True\<rparr> \<and>
   member_rooms st_one ann_A = [str ''r1''] \<and>
   length (member_rooms (projr (run st_one ex_move)) ann_A) \<le> 1 \<and>
   member_rooms (projr (run st_one ex_move)) ann_A = [str ''r2''] \<and>
   socket_rooms (projr (run st_one ex_move)) (str ''A'') = [str ''A'', str ''r2''] \<and>
   room_sockets (projr (run st_one ex_move)) (str ''r1'') = [str ''B'']"
proof -
  let ?s = "\<lparr>user = ann_A, srooms = [str ''A'', str ''r1''], connected = True\<rparr>"
  let ?es = "[JoinRoom (str ''B'') (JStr (str ''r1'')), ex_send (str ''B'') (JStr (str ''r1'')) (JStr (str ''hi''))]"
  have h1: "fresh_ids (ex_one @ ex_move)" by code_simp
  have h2: "run init ex_one = Inr st_one" by code_simp
  have h3: "run st_one ex_move = Inr (projr (run st_one ex_move))" by code_simp
  have h4: "map_of (sockets st_one) (str ''A'') = Some ?s" by code_simp
  have h5: "rooms_get st_one (JStr (str ''r2'')) = Some (str ''r2'', \<lparr>name = str ''random'', messages = [], users = []\<rparr>)"
    by code_simp
  have h6: "\<not> list_ex (moves (str ''A'')) ?es" by code_simp
  have h7: "ex_move = JoinRoom (str ''A'') (JStr (str ''r2'')) # ?es" by (simp add: ex_move_def)
  have h8: "member_rooms st_one ann_A = [str ''r1'']" by code_simp
  have h9: "room_sockets (projr (run st_one ex_move)) (str ''r1'') = [str ''B'']" by code_simp
  from one_room_while_connected[OF h1 h2 h3, of ann_A]
  have le: "length (member_rooms (projr (run st_one ex_move)) ann_A) \<le> 1"
    and "ex_move = JoinRoom (str ''A'') (JStr (str ''r2'')) # ?es \<and> map_of (sockets st_one) (str ''A'') = Some ?s \<and>
       connected ?s \<and> rooms_get st_one (JStr (str ''r2'')) = Some (str ''r2'', \<lparr>name = str ''random'', messages = [], users = []\<rparr>) \<and>
       \<not> list_ex (moves (str ''A'')) ?es \<longrightarrow>
         member_rooms (projr (run st_one ex_move)) (user ?s) = [str ''r2''] \<and>
         socket_rooms (projr (run st_one ex_move)) (str ''A'') = [str ''A'', str ''r2'']"
    by blast+
  with h4 h5 h6 h7 have "member_rooms (projr (run st_one ex_move)) ann_A = [str ''r2''] \<and>
      socket_rooms (projr (run st_one ex_move)) (str ''A'') = [str ''A'', str ''r2'']" by simp
  with h1 h2 h3 h4 h8 h9 le show ?thesis by blast
qed

text \<open>
  C1 (the code at the failing input). The invariant says that a connection is a member of
  the room it joined last, and of no room after it has disconnected. Socket \<open>A\<close> joins
  room \<open>r1\<close> and disconnects: the library has taken the socket out of all its rooms, but
  its user object is still in the set of members of \<open>r1\<close>.
\<close>

theorem member_after_disconnect:
  "run init (ex_one @ [Disconnect (str ''A'')]) = Inr (projr (run init (ex_one @ [Disconnect (str ''A'')]))) \<and>
   socket_rooms (projr (run init (ex_one @ [Disconnect (str ''A'')]))) (str ''A'') = [] \<and>
   room_users (projr (run init (ex_one @ [Disconnect (str ''A'')]))) (str ''r1'') = [ann_A] \<and>
   member_rooms (projr (run init (ex_one @ [Disconnect (str ''A'')]))) ann_A = [str ''r1'']"
  by code_simp

section \<open>Disconnecting\<close>

text \<open>
  Whatever the state, a disconnection changes no room and sends nothing: the loop of the
  handler runs over the empty \<open>socket.rooms\<close>.
\<close>

lemma disconnect_no_cleanup:
  "rooms (disconnect st sid u) = rooms st \<and> outbox (disconnect st sid u) = outbox st"
  by (simp add: disconnect_effect)

text \<open>
  Had the handler run while the socket was still in its rooms (as a handler of
  \<open>disconnecting\<close> does), its loop would have removed the user object and told the room.
\<close>

lemma on_disconnect_with_rooms:
  "room_users (on_disconnect st_both (str ''B'') bob_B) (str ''r1'') = [ann_A] \<and>
   sent st_both (on_disconnect st_both (str ''B'') bob_B) = [(str ''A'', UserLeft bob_B [ann_A])]"
  by code_simp

text \<open>
  C7 (the code at the failing input). Sockets \<open>A\<close> and \<open>B\<close> are in room \<open>r1\<close> and \<open>B\<close>
  disconnects: the user object of \<open>B\<close> is still a member of \<open>r1\<close>, and nothing is sent
  to \<open>A\<close>; only the two maps of the server forget the connection.
\<close>

theorem disconnect_leaves_member:
  "run st_both [Disconnect (str ''B'')] = Inr (projr (run st_both [Disconnect (str ''B'')])) \<and>
   room_users (projr (run st_both [Disconnect (str ''B'')])) (str ''r1'') = [ann_A, bob_B] \<and>
   sent st_both (projr (run st_both [Disconnect (str ''B'')])) = [] \<and>
   map_of (socketUsers (projr (run st_both [Disconnect (str ''B'')]))) (str ''B'') = None"
  by code_simp

text \<open>
  C3 (the code at the failing input). After \<open>B\<close> has disconnected from room \<open>r1\<close>, a post
  of \<open>A\<close> to \<open>r1\<close> is delivered to \<open>A\<close> alone, while the members of the room are the user
  objects of \<open>A\<close> and of \<open>B\<close>.
\<close>

theorem message_misses_member:
  "room_users (projr (run st_both [Disconnect (str ''B'')])) (str ''r1'') = [ann_A, bob_B] \<and>
   sent (projr (run st_both [Disconnect (str ''B'')]))
        (projr (run st_both [Disconnect (str ''B''), ex_send (str ''A'') (JStr (str ''r1'')) (JStr (str ''hi''))])) =
     [(str ''A'', Message_ev \<lparr>msg_id = str ''m'', msg_user = ann_A, message = str ''hi'', timestamp = str ''t''\<rparr>)]"
  by code_simp

text \<open>
  In every state the server reaches, the sockets that receive a post are the connected
  sockets whose user object is a member of the room.
\<close>

lemma room_sockets_members:
  assumes "consistent st" "r \<in> set (map fst (rooms st))"
  shows "set (room_sockets st r) =
           {sid. \<exists>s. map_of (sockets st) sid = Some s \<and> connected s \<and> user s \<in> set (room_users st r)}"
proof (intro set_eqI iffI)
  fix sid
  assume "sid \<in> set (room_sockets st r)"
  then have "r \<in> set (socket_rooms st sid)" by (simp add: room_sockets_def)
  then obtain s where s: "map_of (sockets st) sid = Some s" "r \<in> set (srooms s)"
    by (cases "map_of (sockets st) sid") (auto simp: socket_rooms_def)
  from assms(1) s(1) have ok: "socket_ok st sid s" by (simp add: consistent_def)
  with s(2) have conn: "connected s" by (auto simp: socket_ok_def)
  from ok have "sid \<notin> set (map fst (rooms st))" unfolding socket_ok_def by blast
  with assms(2) have "r \<noteq> sid" by blast
  with srooms_member_rooms[OF assms(1) s(1) conn] s(2)
  have "user s \<in> set (room_users st r)" by (auto simp: member_rooms_def)
  with s(1) conn show "sid \<in> {sid. \<exists>s. map_of (sockets st) sid = Some s \<and> connected s \<and> user s \<in> set (room_users st r)}"
    by blast
next
  fix sid
  assume "sid \<in> {sid. \<exists>s. map_of (sockets st) sid = Some s \<and> connected s \<and> user s \<in> set (room_users st r)}"
  then obtain s where s: "map_of (sockets st) sid = Some s" "connected s" "user s \<in> set (room_users st r)"
    by blast
  from srooms_member_rooms[OF assms(1) s(1,2)] s(3) assms(2)
  have "r \<in> set (srooms s)" by (simp add: member_rooms_def)
  with s(1) show "sid \<in> set (room_sockets st r)"
    by (auto simp: room_sockets_def socket_rooms_def dest: socket_present)
qed




section \<open>Joining\<close>

lemma others_unchanged:
  assumes "map fst (sockets st') = map fst (sockets st)"
    and "\<And>x. x \<noteq> sid \<Longrightarrow> map_of (sockets st') x = map_of (sockets st) x"
  shows "filter (\<lambda>x. x \<noteq> sid) (room_sockets st' r) = filter (\<lambda>x. x \<noteq> sid) (room_sockets st r)"
  unfolding room_sockets_def filter_filter assms(1)
  by (rule filter_cong) (auto simp: socket_rooms_def assms(2))

lemma socket_leave_fields:
  "rooms (socket_leave st sid r) = rooms st"
  "outbox (socket_leave st sid r) = outbox st"
  "map fst (sockets (socket_leave st sid r)) = map fst (sockets st)"
  "x \<noteq> sid \<Longrightarrow> map_of (sockets (socket_leave st sid r)) x = map_of (sockets st) x"
  by (simp_all add: socket_leave_def fx)

lemma socket_join_fields:
  "rooms (socket_join st sid r) = rooms st"
  "outbox (socket_join st sid r) = outbox st"
  "map fst (sockets (socket_join st sid r)) = map fst (sockets st)"
  "x \<noteq> sid \<Longrightarrow> map_of (sockets (socket_join st sid r)) x = map_of (sockets st) x"
  by (simp_all add: socket_join_def fx)

lemma leave_previous_self: "leave_previous sid u st sid = st"
  by (simp add: leave_previous_def)

lemma leave_previous_outbox:
  "outbox (leave_previous sid u st r) =
     outbox st @ (if r \<noteq> sid \<and> r \<in> set (map fst (rooms st))
                  then map (\<lambda>x. (x, UserLeft u (set_delete u (room_users st r))))
                         (filter (\<lambda>x. x \<noteq> sid) (room_sockets st r))
                  else [])"
proof (cases "r \<noteq> sid \<and> r \<in> set (map fst (rooms st))")
  case False
  then have "r = sid \<or> map_of (rooms st) r = None"
    by (auto simp: map_of_eq_None_iff)
  with False show ?thesis
    by (auto simp: leave_previous_def Let_def socket_leave_fields)
next
  case True
  then obtain rm where rm: "map_of (rooms st) r = Some rm"
    by (cases "map_of (rooms st) r") (auto simp: map_of_eq_None_iff)
  let ?st1 = "socket_leave st sid r"
  let ?st2 = "map_room (\<lambda>rm. rm\<lparr>users := set_delete u (users rm)\<rparr>) r ?st1"
  have o: "filter (\<lambda>x. x \<noteq> sid) (room_sockets ?st2 r) = filter (\<lambda>x. x \<noteq> sid) (room_sockets st r)"
    by (rule others_unchanged) (simp_all add: socket_leave_fields fx)
  have us: "room_users ?st2 r = set_delete u (room_users st r)"
    using rm by (simp add: room_users_def fx socket_leave_fields)
  have "leave_previous sid u st r = socket_to_emit ?st2 sid r (UserLeft u (room_users ?st2 r))"
    using True rm by (simp add: leave_previous_def Let_def socket_leave_fields)
  then have "outbox (leave_previous sid u st r) =
      outbox st @ map (\<lambda>x. (x, UserLeft u (room_users ?st2 r))) (filter (\<lambda>x. x \<noteq> sid) (room_sockets ?st2 r))"
    by (simp add: socket_to_emit_def fx socket_leave_fields)
  with True show ?thesis
    by (simp add: o us del: set_map)
qed

text \<open>What a join of a connected socket sends, in a state the server reaches.\<close>

lemma join_room_sent:
  assumes c: "consistent st" and s: "map_of (sockets st) sid = Some s" "connected s"
    and rm: "map_of (rooms st) r = Some rm"
  shows "sent st (join_room st sid (user s) (JStr r)) =
     concat (map (\<lambda>r0. map (\<lambda>x. (x, UserLeft (user s) (set_delete (user s) (room_users st r0))))
                          (filter (\<lambda>x. x \<noteq> sid) (room_sockets st r0)))
              (member_rooms st (user s))) @
     map (\<lambda>x. (x, UserJoined (user s) (set_delete (user s) (room_users st r) @ [user s])))
       (filter (\<lambda>x. x \<noteq> sid) (room_sockets st r)) @
     [(sid, RoomUsers r (set_delete (user s) (room_users st r) @ [user s])),
      (sid, MessageHistory r (room_messages st r))]"
proof -
  let ?u = "user s"
  let ?st1 = "foldl (leave_previous sid ?u) st (socket_rooms st sid)"
  let ?left = "concat (map (\<lambda>r0. map (\<lambda>x. (x, UserLeft ?u (set_delete ?u (room_users st r0))))
                          (filter (\<lambda>x. x \<noteq> sid) (room_sockets st r0)))
              (member_rooms st ?u))"
  have sr: "socket_rooms st sid = sid # member_rooms st ?u"
    using srooms_member_rooms[OF c s] s(1) by (simp add: socket_rooms_def)
  have len: "length (member_rooms st ?u) \<le> 1"
    using c by (rule member_rooms_at_most_one)
  have keys: "set (member_rooms st ?u) \<subseteq> set (map fst (rooms st))"
    by (auto simp: member_rooms_def)
  have nsid: "sid \<notin> set (member_rooms st ?u)"
    using consistent_socket(3)[OF c s] keys by blast
  have out1: "outbox ?st1 = outbox st @ ?left"
  proof (cases "member_rooms st ?u")
    case Nil
    then show ?thesis by (simp add: sr leave_previous_self)
  next
    case (Cons r0 rest)
    with len have m: "member_rooms st ?u = [r0]" by simp
    with keys nsid have "r0 \<in> set (map fst (rooms st))" "r0 \<noteq> sid" by auto
    then show ?thesis by (simp add: sr m leave_previous_self leave_previous_outbox del: set_map)
  qed
  let ?st2 = "socket_join ?st1 sid r"
  let ?st3 = "map_room (\<lambda>rm. rm\<lparr>users := set_add ?u (users rm)\<rparr>) r ?st2"
  have o: "filter (\<lambda>x. x \<noteq> sid) (room_sockets ?st3 r) = filter (\<lambda>x. x \<noteq> sid) (room_sockets st r)"
    by (rule others_unchanged) (simp_all add: socket_join_fields fx)
  have us: "room_users (join_room st sid ?u (JStr r)) r = set_delete ?u (room_users st r) @ [?u]"
    by (simp add: join_room_view(1)[OF c s rm])
  have us3: "room_users ?st3 r = room_users (join_room st sid ?u (JStr r)) r"
    using rm by (simp add: join_room_def rooms_get_def Let_def room_users_def fx)
  have ms: "room_messages ?st3 r = room_messages st r"
    by (cases "map_of (rooms st) r") (simp_all add: room_messages_def socket_join_fields fx)
  have "outbox (join_room st sid ?u (JStr r)) = outbox ?st1 @
      map (\<lambda>x. (x, UserJoined ?u (room_users ?st3 r))) (filter (\<lambda>x. x \<noteq> sid) (room_sockets ?st3 r)) @
      [(sid, RoomUsers r (room_users ?st3 r)), (sid, MessageHistory r (room_messages ?st3 r))]"
    using rm
    by (simp add: join_room_def rooms_get_def Let_def socket_emit_def socket_to_emit_def
        room_users_def room_messages_def socket_join_fields fx)
  then show ?thesis
    by (simp add: sent_def out1 o us3 us ms)
qed


text \<open>
  C4 (counterexample). Sockets \<open>A\<close> and \<open>B\<close> are in room \<open>r1\<close> and \<open>A\<close> joins \<open>r1\<close>
  again: \<open>B\<close> receives a 'user_left' and a 'user_joined' event.
\<close>

theorem rejoin_counterexample:
  "run st_both [JoinRoom (str ''A'') (JStr (str ''r1''))] =
     Inr (join_room st_both (str ''A'') ann_A (JStr (str ''r1''))) \<and>
   sent st_both (join_room st_both (str ''A'') ann_A (JStr (str ''r1''))) =
     [(str ''B'', UserLeft ann_A [bob_B]),
      (str ''B'', UserJoined ann_A [bob_B, ann_A]),
      (str ''A'', RoomUsers (str ''r1'') [bob_B, ann_A]),
      (str ''A'', MessageHistory (str ''r1'') [])]"
  by code_simp

text \<open>
  C4 (amended). When a connected socket joins the room it is already in, the handler
  leaves the room and joins it again: the set of members of the room is the same as before
  (the joiner is now the last in the order of the members), every other socket in the room
  receives a 'user_left' event and then a 'user_joined' event, and the joining socket
  receives the join response, the list of members and then the history.
\<close>

theorem rejoin_same_room:
  assumes "fresh_ids evs" and "run init evs = Inr st"
    and "map_of (sockets st) sid = Some s" and "connected s"
    and "user s \<in> set (room_users st r)"
  shows "step st (JoinRoom sid (JStr r)) = Inr (join_room st sid (user s) (JStr r)) \<and>
     set (room_users (join_room st sid (user s) (JStr r)) r) = set (room_users st r) \<and>
     room_users (join_room st sid (user s) (JStr r)) r = set_delete (user s) (room_users st r) @ [user s] \<and>
     sent st (join_room st sid (user s) (JStr r)) =
       map (\<lambda>x. (x, UserLeft (user s) (set_delete (user s) (room_users st r))))
         (filter (\<lambda>x. x \<noteq> sid) (room_sockets st r)) @
       map (\<lambda>x. (x, UserJoined (user s) (set_delete (user s) (room_users st r) @ [user s])))
         (filter (\<lambda>x. x \<noteq> sid) (room_sockets st r)) @
       [(sid, RoomUsers r (set_delete (user s) (room_users st r) @ [user s])),
        (sid, MessageHistory r (room_messages st r))]"
proof -
  from reach(1)[OF assms(1,2)] have c: "consistent st" .
  note s = assms(3,4)
  from assms(5) have "room_users st r \<noteq> []" by force
  then have key: "r \<in> set (map fst (rooms st))" using room_users_absent[of r st] by blast
  then obtain rm where rm: "map_of (rooms st) r = Some rm"
    by (cases "map_of (rooms st) r") (auto simp: map_of_eq_None_iff)
  from c assms(5) have only: "user s \<in> set (room_users st r') \<longleftrightarrow> r' = r" for r'
    unfolding consistent_def by blast
  from c have "distinct (map fst (rooms st))" by (simp add: consistent_def)
  then have m: "member_rooms st (user s) = [r]"
    using key only by (rule member_rooms_only)
  have "step st (JoinRoom sid (JStr r)) = Inr (join_room st sid (user s) (JStr r))"
    using s by (simp add: with_socket_def)
  moreover have us: "room_users (join_room st sid (user s) (JStr r)) r = set_delete (user s) (room_users st r) @ [user s]"
    by (simp add: join_room_view(1)[OF c s rm])
  moreover have "set (room_users (join_room st sid (user s) (JStr r)) r) = set (room_users st r)"
    using assms(5) by (auto simp: us)
  moreover note join_room_sent[OF c s rm, unfolded m]
  ultimately show ?thesis by simp
qed

theorem rejoin_same_room_witness:
  "fresh_ids ex_both \<and> run init ex_both = Inr st_both \<and>
   map_of (sockets st_both) (str ''B'') = Some \<lparr>user = bob_B, srooms = [str ''B'', str ''r1''], connected = True\<rparr> \<and>
   bob_B \<in> set (room_users st_both (str ''r1'')) \<and>
   set (room_users (join_room st_both (str ''B'') bob_B (JStr (str ''r1''))) (str ''r1'')) =
     set (room_users st_both (str ''r1'')) \<and>
   sent st_both (join_room st_both (str ''B'') bob_B (JStr (str ''r1''))) =
     [(str ''A'', UserLeft bob_B [ann_A]),
      (str ''A'', UserJoined bob_B [ann_A, bob_B]),
      (str ''B'', RoomUsers (str ''r1'') [ann_A, bob_B]),
      (str ''B'', MessageHistory (str ''r1'') [])]"
proof -
  let ?s = "\<lparr>user = bob_B, srooms = [str ''B'', str ''r1''], connected = True\<rparr>"
  have h1: "fresh_ids ex_both" by code_simp
  have h2: "run init ex_both = Inr st_both" by code_simp
  have h3: "map_of (sockets st_both) (str ''B'') = Some ?s" by code_simp
  have h4: "connected ?s" by simp
  have h5: "user ?s \<in> set (room_users st_both (str ''r1''))" by code_simp
  have e: "map (\<lambda>x. (x, UserLeft bob_B (set_delete bob_B (room_users st_both (str ''r1'')))))
         (filter (\<lambda>x. x \<noteq> str ''B'') (room_sockets st_both (str ''r1''))) @
       map (\<lambda>x. (x, UserJoined bob_B (set_delete bob_B (room_users st_both (str ''r1'')) @ [bob_B])))
         (filter (\<lambda>x. x \<noteq> str ''B'') (room_sockets st_both (str ''r1''))) @
       [(str ''B'', RoomUsers (str ''r1'') (set_delete bob_B (room_users st_both (str ''r1'')) @ [bob_B])),
        (str ''B'', MessageHistory (str ''r1'') (room_messages st_both (str ''r1'')))] =
     [(str ''A'', UserLeft bob_B [ann_A]),
      (str ''A'', UserJoined bob_B [ann_A, bob_B]),
      (str ''B'', RoomUsers (str ''r1'') [ann_A, bob_B]),
      (str ''B'', MessageHistory (str ''r1'') [])]"
    by code_simp
  have u: "user ?s = bob_B" by simp
  note r = rejoin_same_room[OF h1 h2 h3 h4 h5, unfolded u]
  from r have a: "set (room_users (join_room st_both (str ''B'') bob_B (JStr (str ''r1''))) (str ''r1'')) =
     set (room_users st_both (str ''r1''))" by blast
  from r have "sent st_both (join_room st_both (str ''B'') bob_B (JStr (str ''r1''))) =
       map (\<lambda>x. (x, UserLeft bob_B (set_delete bob_B (room_users st_both (str ''r1'')))))
         (filter (\<lambda>x. x \<noteq> str ''B'') (room_sockets st_both (str ''r1''))) @
       map (\<lambda>x. (x, UserJoined bob_B (set_delete bob_B (room_users st_both (str ''r1'')) @ [bob_B])))
         (filter (\<lambda>x. x \<noteq> str ''B'') (room_sockets st_both (str ''r1''))) @
       [(str ''B'', RoomUsers (str ''r1'') (set_delete bob_B (room_users st_both (str ''r1'')) @ [bob_B])),
        (str ''B'', MessageHistory (str ''r1'') (room_messages st_both (str ''r1'')))]" by blast
  from this e have b: "sent st_both (join_room st_both (str ''B'') bob_B (JStr (str ''r1''))) =
     [(str ''A'', UserLeft bob_B [ann_A]),
      (str ''A'', UserJoined bob_B [ann_A, bob_B]),
      (str ''B'', RoomUsers (str ''r1'') [ann_A, bob_B]),
      (str ''B'', MessageHistory (str ''r1'') [])]" by (rule trans)
  from h1 h2 h3 h5[unfolded u] a b show ?thesis by blast
qed

text \<open>
  C6 (counterexample). Socket \<open>A\<close> is the first to join the empty room \<open>r1\<close>: the list of
  members it receives holds its own user object.
\<close>

theorem snapshot_counterexample:
  "room_users (projr (run init ex_setup)) (str ''r1'') = [] \<and>
   sent (projr (run init ex_setup)) st_one =
     [(str ''A'', RoomUsers (str ''r1'') [ann_A]), (str ''A'', MessageHistory (str ''r1'') [])]"
  by code_simp

text \<open>
  C6 (amended). The list of members sent to a joining socket is the list of members of the
  room after the join: the other members that are there at the time of the join, in the
  order they joined, followed by the user object of the joining socket itself. The first
  socket to join an empty room receives a list that holds itself alone. The list and the
  history are the last two events of the join and the only ones sent to the joining socket.
\<close>

theorem join_snapshot:
  assumes "fresh_ids evs" and "run init evs = Inr st"
    and "map_of (sockets st) sid = Some s" and "connected s"
    and "map_of (rooms st) r = Some rm"
  shows "\<exists>others. step st (JoinRoom sid (JStr r)) = Inr (join_room st sid (user s) (JStr r)) \<and>
     sent st (join_room st sid (user s) (JStr r)) =
       others @ [(sid, RoomUsers r (filter (\<lambda>v. v \<noteq> user s) (users rm) @ [user s])),
                 (sid, MessageHistory r (messages rm))] \<and>
     sid \<notin> fst ` set others \<and>
     room_users (join_room st sid (user s) (JStr r)) r = filter (\<lambda>v. v \<noteq> user s) (users rm) @ [user s] \<and>
     (users rm = [] \<longrightarrow> filter (\<lambda>v. v \<noteq> user s) (users rm) @ [user s] = [user s])"
proof -
  from reach(1)[OF assms(1,2)] have c: "consistent st" .
  note s = assms(3,4)
  let ?others = "concat (map (\<lambda>r0. map (\<lambda>x. (x, UserLeft (user s) (set_delete (user s) (room_users st r0))))
                          (filter (\<lambda>x. x \<noteq> sid) (room_sockets st r0)))
              (member_rooms st (user s))) @
     map (\<lambda>x. (x, UserJoined (user s) (set_delete (user s) (room_users st r) @ [user s])))
       (filter (\<lambda>x. x \<noteq> sid) (room_sockets st r))"
  have ru: "room_users st r = users rm" and rms: "room_messages st r = messages rm"
    by (simp_all add: room_users_def room_messages_def assms(5))
  have "step st (JoinRoom sid (JStr r)) = Inr (join_room st sid (user s) (JStr r))"
    using s by (simp add: with_socket_def)
  moreover have "sent st (join_room st sid (user s) (JStr r)) =
       ?others @ [(sid, RoomUsers r (filter (\<lambda>v. v \<noteq> user s) (users rm) @ [user s])),
                 (sid, MessageHistory r (messages rm))]"
    using join_room_sent[OF c s assms(5)] by (simp add: ru rms set_delete_def)
  moreover have "sid \<notin> fst ` set ?others" by force
  moreover have "room_users (join_room st sid (user s) (JStr r)) r = filter (\<lambda>v. v \<noteq> user s) (users rm) @ [user s]"
    by (simp add: join_room_view(1)[OF c s assms(5)] ru set_delete_def)
  ultimately show ?thesis by (intro exI[of _ ?others]) simp
qed

theorem join_snapshot_witness:
  "fresh_ids ex_one \<and> run init ex_one = Inr st_one \<and>
   map_of (sockets st_one) (str ''B'') = Some \<lparr>user = bob_B, srooms = [str ''B''], connected = True\<rparr> \<and>
   map_of (rooms st_one) (str ''r1'') = Some \<lparr>name = str ''general'', messages = [], users = [ann_A]\<rparr> \<and>
   (\<exists>others. sent st_one (join_room st_one (str ''B'') bob_B (JStr (str ''r1''))) =
       others @ [(str ''B'', RoomUsers (str ''r1'') [ann_A, bob_B]), (str ''B'', MessageHistory (str ''r1'') [])] \<and>
     str ''B'' \<notin> fst ` set others)"
proof -
  let ?s = "\<lparr>user = bob_B, srooms = [str ''B''], connected = True\<rparr>"
  let ?rm = "\<lparr>name = str ''general'', messages = [], users = [ann_A]\<rparr>"
  have h1: "fresh_ids ex_one" by code_simp
  have h2: "run init ex_one = Inr st_one" by code_simp
  have h3: "map_of (sockets st_one) (str ''B'') = Some ?s" by code_simp
  have h4: "connected ?s" by simp
  have h5: "map_of (rooms st_one) (str ''r1'') = Some ?rm" by code_simp
  have e: "filter (\<lambda>v. v \<noteq> bob_B) (users ?rm) @ [bob_B] = [ann_A, bob_B]" by code_simp
  from join_snapshot[OF h1 h2 h3 h4 h5]
  obtain others where "sent st_one (join_room st_one (str ''B'') (user ?s) (JStr (str ''r1''))) =
       others @ [(str ''B'', RoomUsers (str ''r1'') (filter (\<lambda>v. v \<noteq> user ?s) (users ?rm) @ [user ?s])),
                 (str ''B'', MessageHistory (str ''r1'') (messages ?rm))]"
    "str ''B'' \<notin> fst ` set others" by blast
  then have "sent st_one (join_room st_one (str ''B'') bob_B (JStr (str ''r1''))) =
       others @ [(str ''B'', RoomUsers (str ''r1'') [ann_A, bob_B]), (str ''B'', MessageHistory (str ''r1'') [])] \<and>
     str ''B'' \<notin> fst ` set others"
    using e by simp
  with h1 h2 h3 h5 show ?thesis by blast
qed




section \<open>The history of a room\<close>

lemma slice_last_slice: "slice_last n (slice_last n xs @ ys) = slice_last n (xs @ ys)"
proof (cases "length xs \<le> n")
  case True
  then show ?thesis by (simp add: slice_last_def)
next
  case False
  then have "length xs - n + n = length xs" by simp
  with False show ?thesis by (simp add: slice_last_def add.commute)
qed

lemma slice_last_id: "length xs \<le> n \<Longrightarrow> slice_last n xs = xs"
  by (simp add: slice_last_def)

lemma send_message_messages:
  assumes "send_message st sid u data mid ts = Inr st'"
  shows "room_messages st' r =
     (case (js_get data (str ''roomId''), js_get data (str ''message'')) of
        (Inr (JStr r'), Inr (JStr b)) \<Rightarrow>
          if u \<in> set (room_users st r') \<and> r' = r
          then slice_last 100 (room_messages st r @ [\<lparr>msg_id = mid, msg_user = u, message = trim b, timestamp = ts\<rparr>])
          else room_messages st r
      | _ \<Rightarrow> room_messages st r)"
  using assms
  by (auto simp: send_message_def rooms_get_def Let_def room_messages_def room_users_def fx
      socket_emit_def slice_last_id
      split: sum.splits option.splits jsval.splits if_splits)

lemma post_to_send:
  assumes "map_of (sockets st) sid = Some s" "connected s"
  shows "post_to r st (SendMessage sid data mid ts) =
     (case (js_get data (str ''roomId''), js_get data (str ''message'')) of
        (Inr (JStr r'), Inr (JStr b)) \<Rightarrow>
          if user s \<in> set (room_users st r') \<and> r' = r
          then [\<lparr>msg_id = mid, msg_user = user s, message = trim b, timestamp = ts\<rparr>]
          else []
      | _ \<Rightarrow> [])"
  using assms by (auto simp: post_to_def split: sum.splits jsval.splits)

lemma post_to_no_socket:
  assumes "map_of (sockets st) sid = None \<or> (\<exists>s. map_of (sockets st) sid = Some s \<and> \<not> connected s)"
  shows "post_to r st (SendMessage sid data mid ts) = []"
  using assms by (auto simp: post_to_def split: sum.splits jsval.splits)

text \<open>A step appends the post it accepts to the history and keeps the last 100 messages.\<close>

lemma step_messages:
  assumes c: "consistent st" and st': "step st e = Inr st'"
    and f: "set (new_id e) \<inter> set (map fst (rooms st)) = {}"
  shows "room_messages st' r = slice_last 100 (room_messages st r @ post_to r st e)"
proof -
  from c have "room_ok st r" by (simp add: consistent_def)
  then have le: "length (room_messages st r) \<le> 100" by (simp add: room_ok_def)
  then have same: "slice_last 100 (room_messages st r @ []) = room_messages st r"
    by (simp add: slice_last_id)
  show ?thesis
  proof (cases e)
    case (CreateRoom rid nm)
    with f have "rid \<notin> set (map fst (rooms st))" by simp
    with CreateRoom st' same show ?thesis
      by (auto simp: create_room_effect(2) post_to_def)
  next
    case (Connect sid u0)
    with st' same show ?thesis
      by (auto simp: connection_rooms post_to_def)
  next
    case (JoinRoom sid roomId)
    with st' same show ?thesis
      by (auto simp: with_socket_def join_room_messages post_to_def split: option.splits if_splits)
  next
    case (Typing sid data)
    with st' same show ?thesis
      by (auto simp: with_socket_def typing_effect room_messages_def post_to_def split: option.splits if_splits)
  next
    case (Disconnect sid)
    with st' same show ?thesis
      by (auto simp: with_socket_def disconnect_rooms post_to_def split: option.splits if_splits)
  next
    case (SendMessage sid data mid ts)
    show ?thesis
    proof (cases "map_of (sockets st) sid")
      case None
      with SendMessage st' same show ?thesis
        by (simp add: with_socket_def post_to_no_socket)
    next
      case (Some s)
      show ?thesis
      proof (cases "connected s")
        case False
        with Some SendMessage st' same show ?thesis
          by (simp add: with_socket_def post_to_no_socket)
      next
        case True
        with Some SendMessage st' have "send_message st sid (user s) data mid ts = Inr st'"
          by (simp add: with_socket_def)
        from send_message_messages[OF this, of r] same show ?thesis
          unfolding SendMessage post_to_send[OF Some True]
          by (auto split: sum.splits jsval.splits)
      qed
    qed
  qed
qed

lemma posts_snoc:
  "run st evs = Inr st1 \<Longrightarrow> posts r st (evs @ [e]) = posts r st evs @ post_to r st1 e"
  by (induction evs arbitrary: st) (auto split: sum.splits)

lemma history_is_last_posts:
  assumes "fresh_ids evs" "run init evs = Inr st"
  shows "room_messages st r = slice_last 100 (posts r init evs)"
  using assms
proof (induction evs arbitrary: st rule: rev_induct)
  case Nil
  then show ?case by (auto simp: init_def room_messages_def slice_last_def)
next
  case (snoc e evs)
  from snoc.prems(2) obtain st1 where st1: "run init evs = Inr st1" "step st1 e = Inr st"
    by (auto simp: run_snoc split: sum.splits)
  from snoc.prems(1) have fr: "fresh_ids evs" "set (new_id e) \<inter> set (concat (map new_id evs)) = {}"
    by (auto simp: fresh_ids_def)
  from reach[OF fr(1) st1(1)] fr(2)
  have c: "consistent st1" and f: "set (new_id e) \<inter> set (map fst (rooms st1)) = {}"
    by blast+
  from step_messages[OF c st1(2) f, of r] snoc.IH[OF fr(1) st1(1)]
  show ?case by (simp add: posts_snoc[OF st1(1)] slice_last_slice)
qed


text \<open>An accepted post returns, is the last message of the history and goes to the sockets in the room.\<close>

lemma accepted_post_step:
  assumes "accepted_post st e = Some (r, m)"
  shows "\<exists>st'. step st e = Inr st' \<and> last (room_messages st' r) = m \<and>
           sent st st' = map (\<lambda>s. (s, Message_ev m)) (room_sockets st r)"
proof (cases e)
  case (SendMessage sid data mid ts)
  with assms obtain s b where s: "map_of (sockets st) sid = Some s" "connected s"
    and d: "js_get data (str ''roomId'') = Inr (JStr r)" "js_get data (str ''message'') = Inr (JStr b)"
    and u: "user s \<in> set (room_users st r)"
    and m: "m = \<lparr>msg_id = mid, msg_user = user s, message = trim b, timestamp = ts\<rparr>"
    by (auto split: option.splits sum.splits jsval.splits if_splits)
  from u obtain rm where rm: "map_of (rooms st) r = Some rm" "user s \<in> set (users rm)"
    by (cases "map_of (rooms st) r") (auto simp: room_users_def)
  from send_message_accepted[OF rm d]
  obtain st' where st': "send_message st sid (user s) data mid ts = Inr st'" by blast
  note view = send_message_accepted_view[OF rm d st']
  have "last (room_messages st' r) = m"
    by (simp add: view(1) m slice_last_snoc)
  with st' view(3) s show ?thesis
    by (simp add: SendMessage with_socket_def m)
qed (use assms in simp_all)

text \<open>
  C2. Along every run of the server whose generated ids are distinct, the history of a
  room holds at most 100 messages: it is the last 100 of the posts accepted for the room,
  in the order they were accepted. After more than 100 accepted posts it holds exactly
  100 messages, the accepted posts without the oldest ones.
\<close>

theorem history_bound:
  assumes "fresh_ids evs" and "run init evs = Inr st"
  shows "length (room_messages st r) \<le> 100 \<and>
         room_messages st r = slice_last 100 (posts r init evs) \<and>
         (100 < length (posts r init evs) \<longrightarrow>
            length (room_messages st r) = 100 \<and>
            room_messages st r = drop (length (posts r init evs) - 100) (posts r init evs))"
  using history_is_last_posts[OF assms, of r]
  by (simp add: slice_last_def)



lemma posts_append:
  "run st xs = Inr st1 \<Longrightarrow> posts r st (xs @ ys) = posts r st xs @ posts r st1 ys"
  by (induction xs arbitrary: st) (auto split: sum.splits)

text \<open>A member that posts again and again: every post is accepted.\<close>

lemma sends_by_member:
  assumes "map_of (sockets st) sid = Some s" "connected s" "user s \<in> set (room_users st r)"
    and d: "js_get data (str ''roomId'') = Inr (JStr r)" "js_get data (str ''message'') = Inr (JStr b)"
  shows "\<exists>st'. run st (map (\<lambda>n. SendMessage sid data (f n) ts) ns) = Inr st' \<and>
     posts r st (map (\<lambda>n. SendMessage sid data (f n) ts) ns) =
       map (\<lambda>n. \<lparr>msg_id = f n, msg_user = user s, message = trim b, timestamp = ts\<rparr>) ns"
  using assms(1-3)
proof (induction ns arbitrary: st)
  case Nil
  show ?case by simp
next
  case (Cons n ns)
  from Cons.prems(3) obtain rm where rm: "map_of (rooms st) r = Some rm" "user s \<in> set (users rm)"
    by (cases "map_of (rooms st) r") (auto simp: room_users_def)
  from send_message_accepted[OF rm d]
  obtain st1 where st1: "send_message st sid (user s) data (f n) ts = Inr st1" by blast
  from send_message_effect[OF st1] Cons.prems
  have keep: "map_of (sockets st1) sid = Some s" "user s \<in> set (room_users st1 r)"
    by simp_all
  from Cons.IH[OF keep(1) Cons.prems(2) keep(2)]
  obtain st' where st': "run st1 (map (\<lambda>n. SendMessage sid data (f n) ts) ns) = Inr st'"
    "posts r st1 (map (\<lambda>n. SendMessage sid data (f n) ts) ns) =
       map (\<lambda>n. \<lparr>msg_id = f n, msg_user = user s, message = trim b, timestamp = ts\<rparr>) ns"
    by blast
  have step1: "step st (SendMessage sid data (f n) ts) = Inr st1"
    using Cons.prems(1,2) st1 by (simp add: with_socket_def)
  have "post_to r st (SendMessage sid data (f n) ts) =
      [\<lparr>msg_id = f n, msg_user = user s, message = trim b, timestamp = ts\<rparr>]"
    using Cons.prems(3) by (simp add: post_to_send[OF Cons.prems(1,2)] d)
  with step1 st' show ?case by simp
qed

theorem history_bound_witness:
  "fresh_ids ex_many \<and>
   (\<exists>st. run init ex_many = Inr st \<and> length (posts (str ''r1'') init ex_many) = 101 \<and>
      length (room_messages st (str ''r1'')) = 100 \<and>
      room_messages st (str ''r1'') = drop 1 (posts (str ''r1'') init ex_many))"
proof -
  let ?s = "\<lparr>user = ann_A, srooms = [str ''A'', str ''r1''], connected = True\<rparr>"
  let ?data = "ex_data (JStr (str ''r1'')) (JStr (str ''hi''))"
  let ?sends = "map (\<lambda>n. SendMessage (str ''A'') ?data [of_nat n] (str ''t'')) [0..<101]"
  have many: "ex_many = ex_both @ ?sends"
    by (simp add: ex_many_def ex_post_def[abs_def])
  have b: "run init ex_both = Inr st_both" by code_simp
  have pb: "posts (str ''r1'') init ex_both = []" by code_simp
  have fb: "fresh_ids ex_both" by code_simp
  have z: "concat (map new_id ?sends) = []" by simp
  have "concat (map new_id ex_many) = concat (map new_id ex_both)"
    unfolding many by (simp only: map_append concat_append z append_Nil2)
  with fb have h1: "fresh_ids ex_many"
    by (simp only: fresh_ids_def)
  have s: "map_of (sockets st_both) (str ''A'') = Some ?s" by code_simp
  have c: "connected ?s" by simp
  have u: "user ?s \<in> set (room_users st_both (str ''r1''))" by code_simp
  have d1: "js_get ?data (str ''roomId'') = Inr (JStr (str ''r1''))" by code_simp
  have d2: "js_get ?data (str ''message'') = Inr (JStr (str ''hi''))" by code_simp
  from sends_by_member[OF s c u d1 d2, of "\<lambda>n. [of_nat n]" "str ''t''" "[0..<101]"]
  obtain st where st: "run st_both ?sends = Inr st"
    and p: "length (posts (str ''r1'') st_both ?sends) = 101"
    by auto
  from b st have h2: "run init ex_many = Inr st"
    by (simp add: many run_append)
  from p have h3: "length (posts (str ''r1'') init ex_many) = 101"
    by (simp add: many posts_append[OF b] pb)
  from history_bound[OF h1 h2, of "str ''r1''"] h1 h2 h3 show ?thesis by auto
qed


end
